theory Spec2Isabelle
  imports
    Main
    "HOL-Library.AList"
    "HOL-Library.Sublist"
    "HOL-Library.Char_ord"
    "HOL-Library.List_Lexorder"
begin

section \<open>Python values and builtins used by the converter\<close>

text \<open>
  A Python \<open>str\<close> is modelled as a HOL \<open>string\<close>; a character stands for the code
  point of the same number (0 to 255). Exceptions are values of \<open>error\<close>; a function
  that can raise returns \<open>error + 'a\<close> with \<open>Inl\<close> for the exception. The builtins
  \<open>str\<close> and \<open>repr\<close> are taken as total; the interpreter's recursion limit is modelled
  where the converter itself recurses, in the extraction of a configuration.
\<close>

type_synonym pystr = string

datatype error =
  ParseError | ValueError | AttributeError | TypeError | KeyError | ReError | RecursionError

definition sq :: pystr where
  \<comment> \<open>the single quote\<close>
  "sq = [CHR 0x27]"

definition bslash :: pystr where
  \<comment> \<open>the backslash\<close>
  "bslash = [CHR 0x5C]"

definition newline :: pystr where
  "newline = [CHR 0x0A]"

definition py_isspace :: "char \<Rightarrow> bool" where
  \<comment> \<open>\<open>str.isspace\<close> on one code point below 256\<close>
  "py_isspace c =
     (let n = (of_char c :: nat)
      in (9 \<le> n \<and> n \<le> 13) \<or> (28 \<le> n \<and> n \<le> 32) \<or> n = 133 \<or> n = 160)"

definition py_strip :: "pystr \<Rightarrow> pystr" where
  \<comment> \<open>\<open>s.strip()\<close>\<close>
  "py_strip s = rev (dropWhile py_isspace (rev (dropWhile py_isspace s)))"

definition py_lower_char :: "char \<Rightarrow> char" where
  "py_lower_char c =
     (let n = (of_char c :: nat)
      in if (65 \<le> n \<and> n \<le> 90) \<or> (192 \<le> n \<and> n \<le> 222 \<and> n \<noteq> 215)
         then char_of (n + 32) else c)"

definition py_lower :: "pystr \<Rightarrow> pystr" where
  \<comment> \<open>\<open>s.lower()\<close>\<close>
  "py_lower s = map py_lower_char s"

fun py_in :: "pystr \<Rightarrow> pystr \<Rightarrow> bool" where
  \<comment> \<open>\<open>sub in s\<close> on strings\<close>
  "py_in sub [] = (sub = [])"
| "py_in sub (c # cs) = (prefix sub (c # cs) \<or> py_in sub cs)"

definition py_endswith :: "pystr \<Rightarrow> pystr \<Rightarrow> bool" where
  \<comment> \<open>\<open>s.endswith(suf)\<close>\<close>
  "py_endswith s suf = suffix suf s"

fun py_join :: "pystr \<Rightarrow> pystr list \<Rightarrow> pystr" where
  \<comment> \<open>\<open>sep.join(xs)\<close>\<close>
  "py_join sep [] = []"
| "py_join sep [x] = x"
| "py_join sep (x # y # ys) = x @ sep @ py_join sep (y # ys)"

function py_replace :: "pystr \<Rightarrow> pystr \<Rightarrow> pystr \<Rightarrow> pystr" where
  \<comment> \<open>\<open>s.replace(old, new)\<close>, the subject last\<close>
  "py_replace old new s =
     (if old = [] then new @ concat (map (\<lambda>c. c # new) s)
      else if s = [] then []
      else if prefix old s then new @ py_replace old new (drop (length old) s)
      else hd s # py_replace old new (tl s))"
  by pat_completeness auto
termination
  by (relation "measure (\<lambda>(old, new, s). length s)") auto

definition hex_digit :: "nat \<Rightarrow> char" where
  "hex_digit d = (if d < 10 then char_of (48 + d) else char_of (87 + d))"

definition py_isprintable :: "char \<Rightarrow> bool" where
  \<comment> \<open>\<open>str.isprintable\<close> on one code point below 256\<close>
  "py_isprintable c =
     (let n = (of_char c :: nat)
      in (32 \<le> n \<and> n \<le> 126) \<or> (161 \<le> n \<and> n \<noteq> 173))"

definition repr_char :: "char \<Rightarrow> char \<Rightarrow> pystr" where
  \<comment> \<open>one character of \<open>repr(s)\<close>, for the quote character chosen\<close>
  "repr_char quote c =
     (if c = quote \<or> c = CHR 0x5C then [CHR 0x5C, c]
      else if c = CHR 0x09 then [CHR 0x5C, CHR ''t'']
      else if c = CHR 0x0A then [CHR 0x5C, CHR ''n'']
      else if c = CHR 0x0D then [CHR 0x5C, CHR ''r'']
      else if py_isprintable c then [c]
      else [CHR 0x5C, CHR ''x'', hex_digit (of_char c div 16), hex_digit (of_char c mod 16)])"

definition repr_str :: "pystr \<Rightarrow> pystr" where
  \<comment> \<open>\<open>repr(s)\<close> of a string: double quotes only when it holds a single quote and no
      double quote\<close>
  "repr_str s =
     (let quote = (if CHR 0x27 \<in> set s \<and> CHR 0x22 \<notin> set s then CHR 0x22 else CHR 0x27)
      in quote # concat (map (repr_char quote) s) @ [quote])"

subsection \<open>Configuration values\<close>

text \<open>
  A configuration value is a string, \<open>None\<close>, or a dict from strings to configuration
  values. A dict keeps its keys in insertion order, so it is an association list with
  distinct keys, written with \<open>AList.update\<close>: an existing key keeps its place.
\<close>

datatype cfg = CStr pystr | CNone | CDict "(pystr \<times> cfg) list"

type_synonym pydict = "(pystr \<times> cfg) list"

definition has_key :: "pystr \<Rightarrow> (pystr \<times> 'v) list \<Rightarrow> bool" where
  \<comment> \<open>\<open>k in d\<close>\<close>
  "has_key k d = (map_of d k \<noteq> None)"

definition dict_get :: "(pystr \<times> 'v) list \<Rightarrow> pystr \<Rightarrow> 'v \<Rightarrow> 'v" where
  \<comment> \<open>\<open>d.get(k, default)\<close>\<close>
  "dict_get d k dflt = (case map_of d k of None \<Rightarrow> dflt | Some v \<Rightarrow> v)"

fun py_repr :: "cfg \<Rightarrow> pystr" where
  \<comment> \<open>\<open>repr(v)\<close>\<close>
  "py_repr (CStr s) = repr_str s"
| "py_repr CNone = ''None''"
| "py_repr (CDict kvs) =
     ''{'' @ py_join '', '' (map (\<lambda>kv. repr_str (fst kv) @ '': '' @ py_repr (snd kv)) kvs) @ ''}''"

definition py_str :: "cfg \<Rightarrow> pystr" where
  \<comment> \<open>\<open>str(v)\<close>, also what an f-string field prints\<close>
  "py_str v = (case v of CStr s \<Rightarrow> s | _ \<Rightarrow> py_repr v)"

definition truthy :: "cfg \<Rightarrow> bool" where
  \<comment> \<open>the truth value of a configuration value\<close>
  "truthy v = (case v of CStr s \<Rightarrow> s \<noteq> [] | CNone \<Rightarrow> False | CDict kvs \<Rightarrow> kvs \<noteq> [])"

section \<open>The document tree\<close>

text \<open>
  An \<open>xml.etree\<close> element: tag, attributes, text (absent when the element has none) and
  children in document order.
\<close>

datatype element =
  Element (tag: pystr) (attrib: "(pystr \<times> pystr) list") (text_of: "pystr option")
    (children: "element list")

fun descendants :: "element \<Rightarrow> element list" where
  \<comment> \<open>all elements below \<open>e\<close>, in document order\<close>
  "descendants (Element t a x cs) = concat (map (\<lambda>c. c # descendants c) cs)"

definition findall :: "element \<Rightarrow> pystr \<Rightarrow> element list" where
  \<comment> \<open>\<open>e.findall('.//name')\<close>\<close>
  "findall e name = filter (\<lambda>d. tag d = name) (descendants e)"

definition find_elem :: "element \<Rightarrow> pystr \<Rightarrow> element option" where
  \<comment> \<open>\<open>e.find('.//name')\<close>\<close>
  "find_elem e name = (case findall e name of [] \<Rightarrow> None | d # _ \<Rightarrow> Some d)"

definition elem_get :: "element \<Rightarrow> pystr \<Rightarrow> pystr \<Rightarrow> pystr" where
  \<comment> \<open>\<open>e.get(key, default)\<close> with a string default\<close>
  "elem_get e k dflt = dict_get (attrib e) k dflt"

section \<open>The parser (\<open>advanced_parser.py\<close>)\<close>

text \<open>
  Two library functions are parameters of the model: \<open>ET.fromstring\<close>, from bytes to
  the root element or \<open>ParseError\<close>, and \<open>float\<close>, applied to an \<open>int\<close> (\<open>Inl\<close>) or to
  a \<open>str\<close> (\<open>Inr\<close>), which gives a float of the type \<open>'f\<close> or raises \<open>ValueError\<close>.
  The third parameter is the room the interpreter's recursion limit leaves when
  \<open>_extract_detailed_config\<close> calls \<open>_recursive_config_extract\<close>: the number of nested
  activations of that function that still fit on the call stack. It depends on the limit
  in force and on how deep the caller of \<open>parse\<close> already is, and is the same for every
  node of one call of \<open>parse\<close>.
\<close>

record 'f py_env =
  fromstring :: "pystr \<Rightarrow> error + element"
  float_of :: "int + pystr \<Rightarrow> error + 'f"
  stack_room :: nat

record 'f tool =
  tool_id :: pystr
  tool_type :: pystr
  tool_plugin :: pystr
  tool_macro :: pystr
  tool_config :: pydict
  tool_gui :: "('f \<times> 'f) option"
  tool_annotation :: "pystr option"

record connection =
  conn_name :: pystr
  conn_source :: pystr
  conn_destination :: pystr

record 'f parser =
  tools :: "'f tool list"
  connections :: "connection list"
  metadata :: "(pystr \<times> pystr option) list"

definition init_parser :: "'f parser" where
  \<comment> \<open>\<open>__init__\<close>\<close>
  "init_parser = \<lparr>tools = [], connections = [], metadata = []\<rparr>"

definition extract_metadata :: "element \<Rightarrow> 'f parser \<Rightarrow> 'f parser" where
  "extract_metadata root st =
     (let md = [(''version'', Some (elem_get root ''version'' ''Unknown'')),
                (''creation_date'', None), (''author'', None), (''description'', None)];
          md' = (case find_elem root ''Properties'' of
                   None \<Rightarrow> md
                 | Some properties \<Rightarrow>
                     (case find_elem properties ''MetaInfo'' of
                        None \<Rightarrow> md
                      | Some meta \<Rightarrow>
                          fold (\<lambda>child m.
                                 if tag child \<in> set [''Author'', ''Description'', ''CreationDate'']
                                 then AList.update (py_lower (tag child)) (text_of child) m
                                 else m)
                               (children meta) md))
      in st\<lparr>metadata := md'\<rparr>)"

fun fold_err :: "('a \<Rightarrow> 'b \<Rightarrow> error + 'b) \<Rightarrow> 'a list \<Rightarrow> 'b \<Rightarrow> error + 'b" where
  \<comment> \<open>a \<open>for\<close> loop over a list that updates a value and stops at the first exception\<close>
  "fold_err f [] acc = Inr acc"
| "fold_err f (x # xs) acc = (case f x acc of Inl e \<Rightarrow> Inl e | Inr acc' \<Rightarrow> fold_err f xs acc')"

fun recursive_config_extract :: "nat \<Rightarrow> element \<Rightarrow> pydict \<Rightarrow> pystr \<Rightarrow> error + pydict" where
  \<comment> \<open>the first argument is the room left on the call stack, counted in activations of
      this function: with none left the call raises \<open>RecursionError\<close>; the result is the
      dict \<open>config\<close> as the call leaves it\<close>
  "recursive_config_extract 0 element config pfx = Inl RecursionError"
| "recursive_config_extract (Suc room) element config pfx =
     fold_err (\<lambda>child cfg.
            let key = (if pfx \<noteq> [] then pfx @ tag child else tag child)
            in if children child \<noteq> []
               then (case recursive_config_extract room child [] [] of
                       Inl e \<Rightarrow> Inl e
                     | Inr sub_config \<Rightarrow> Inr (AList.update key (CDict sub_config) cfg))
               else if (case text_of child of None \<Rightarrow> False
                        | Some s \<Rightarrow> s \<noteq> [] \<and> py_strip s \<noteq> [])
               then Inr (AList.update key (CStr (py_strip (the (text_of child)))) cfg)
               else if attrib child \<noteq> []
               then Inr (AList.update key
                           (CDict (map (\<lambda>(k, v). (k, CStr v)) (attrib child))) cfg)
               else Inr (AList.update key CNone cfg))
          (children element) config"

definition extract_detailed_config :: "'f py_env \<Rightarrow> element \<Rightarrow> error + pydict" where
  "extract_detailed_config env properties =
     (case find_elem properties ''Configuration'' of
        None \<Rightarrow> Inr []
      | Some configuration \<Rightarrow> recursive_config_extract (stack_room env) configuration [] [])"

definition identify_tool_type :: "pystr \<Rightarrow> pystr \<Rightarrow> pydict \<Rightarrow> pystr" where
  "identify_tool_type plugin macro config =
     (let rest = (if macro \<noteq> [] then ''macro:'' @ macro else ''unknown'')
      in if has_key ''File'' config
         then (if has_key ''FileName_Out'' config
                  \<or> list_ex (\<lambda>k. py_in ''output'' (py_lower k)) (map fst config)
               then ''output_data'' else ''input_data'')
         else if py_in ''AlteryxBasePluginsEngine'' plugin
         then (let config_str = py_lower (py_str (CDict config))
               in if py_in ''filter'' config_str then ''filter''
                  else if py_in ''join'' config_str then ''join''
                  else if py_in ''sort'' config_str then ''sort''
                  else if py_in ''summarize'' config_str \<or> py_in ''groupby'' config_str
                  then ''summarize''
                  else if py_in ''formula'' config_str then ''formula''
                  else if py_in ''select'' config_str then ''select''
                  else if py_in ''unique'' config_str then ''unique''
                  else if py_in ''sample'' config_str then ''sample''
                  else if py_in ''recordid'' config_str then ''record_id''
                  else rest)
         else if py_in ''AlteryxBasePluginsGui'' plugin
         then (if py_in ''browse'' (py_lower plugin) then ''browse''
               else if py_in ''textinput'' (py_lower plugin) then ''text_input''
               else rest)
         else rest)"

definition position_float :: "'f py_env \<Rightarrow> element \<Rightarrow> pystr \<Rightarrow> error + 'f" where
  \<comment> \<open>\<open>float(position.get(k, 0))\<close>\<close>
  "position_float env position k =
     (case map_of (attrib position) k of
        None \<Rightarrow> float_of env (Inl 0)
      | Some v \<Rightarrow> float_of env (Inr v))"

definition extract_gui_settings :: "'f py_env \<Rightarrow> element \<Rightarrow> error + ('f \<times> 'f) option" where
  "extract_gui_settings env node =
     (case find_elem node ''GuiSettings'' of
        None \<Rightarrow> Inr None
      | Some g \<Rightarrow>
          (case find_elem g ''Position'' of
             None \<Rightarrow> Inr None
           | Some position \<Rightarrow>
               (case position_float env position ''x'' of
                  Inl e \<Rightarrow> Inl e
                | Inr x \<Rightarrow>
                    (case position_float env position ''y'' of
                       Inl e \<Rightarrow> Inl e
                     | Inr y \<Rightarrow> Inr (Some (x, y))))))"

definition extract_annotation :: "element \<Rightarrow> pystr option" where
  "extract_annotation node =
     (case find_elem node ''Properties'' of
        None \<Rightarrow> None
      | Some properties \<Rightarrow>
          (case find_elem properties ''Annotation'' of
             None \<Rightarrow> None
           | Some ann \<Rightarrow>
               (case find_elem ann ''Name'' of
                  None \<Rightarrow> None
                | Some nm \<Rightarrow>
                    (case text_of nm of
                       None \<Rightarrow> None
                     | Some s \<Rightarrow> if s \<noteq> [] then Some (py_strip s) else None))))"

definition parse_tool_node :: "'f py_env \<Rightarrow> element \<Rightarrow> error + 'f tool option" where
  "parse_tool_node env node =
     (case map_of (attrib node) ''ToolID'' of
        None \<Rightarrow> Inr None
      | Some tid \<Rightarrow>
          if tid = [] then Inr None
          else
            (let engine_settings = find_elem node ''EngineSettings'';
                 plug = (case engine_settings of None \<Rightarrow> []
                         | Some es \<Rightarrow> elem_get es ''EngineDll'' []);
                 mac = (case engine_settings of None \<Rightarrow> []
                        | Some es \<Rightarrow> elem_get es ''Macro'' [])
             in case extract_gui_settings env node of
                  Inl e \<Rightarrow> Inl e
                | Inr g \<Rightarrow>
                    (case (case find_elem node ''Properties'' of
                             None \<Rightarrow> Inr []
                           | Some properties \<Rightarrow> extract_detailed_config env properties) of
                       Inl e \<Rightarrow> Inl e
                     | Inr cfg \<Rightarrow>
                         Inr (Some \<lparr>tool_id = tid,
                                     tool_type = identify_tool_type plug mac cfg,
                                     tool_plugin = plug, tool_macro = mac, tool_config = cfg,
                                     tool_gui = g,
                                     tool_annotation = extract_annotation node\<rparr>))))"

text \<open>
  The loops that append to the parser's lists return the parser as it is when they
  stop, with the exception that stopped them, if any.
\<close>

fun extract_tools_loop ::
  "'f py_env \<Rightarrow> element list \<Rightarrow> 'f parser \<Rightarrow> 'f parser \<times> error option" where
  "extract_tools_loop env [] st = (st, None)"
| "extract_tools_loop env (node # nodes) st =
     (case parse_tool_node env node of
        Inl e \<Rightarrow> (st, Some e)
      | Inr None \<Rightarrow> extract_tools_loop env nodes st
      | Inr (Some tool_info) \<Rightarrow>
          extract_tools_loop env nodes (st\<lparr>tools := tools st @ [tool_info]\<rparr>))"

definition extract_tools :: "'f py_env \<Rightarrow> element \<Rightarrow> 'f parser \<Rightarrow> 'f parser \<times> error option" where
  "extract_tools env root st = extract_tools_loop env (findall root ''Node'') st"

definition endpoint_text :: "element \<Rightarrow> pystr" where
  \<comment> \<open>\<open>e.text.strip() if e.text else ''\<close>\<close>
  "endpoint_text e =
     (case text_of e of None \<Rightarrow> [] | Some s \<Rightarrow> if s \<noteq> [] then py_strip s else [])"

fun extract_connections_loop :: "element list \<Rightarrow> 'f parser \<Rightarrow> 'f parser" where
  "extract_connections_loop [] st = st"
| "extract_connections_loop (c # cs) st =
     (case (find_elem c ''Origin'', find_elem c ''Destination'') of
        (Some origin, Some dest) \<Rightarrow>
          extract_connections_loop cs
            (st\<lparr>connections := connections st @
                  [\<lparr>conn_name = elem_get c ''name'' ''Output'',
                    conn_source = endpoint_text origin,
                    conn_destination = endpoint_text dest\<rparr>]\<rparr>)
      | _ \<Rightarrow> extract_connections_loop cs st)"

definition extract_connections :: "element \<Rightarrow> 'f parser \<Rightarrow> 'f parser" where
  "extract_connections root st = extract_connections_loop (findall root ''Connection'') st"

definition parse :: "'f py_env \<Rightarrow> 'f parser \<Rightarrow> pystr \<Rightarrow> 'f parser \<times> bool" where
  \<comment> \<open>the parser after the call, and the value returned\<close>
  "parse env st xml_content =
     (case fromstring env xml_content of
        Inl e \<Rightarrow> (st, False)
      | Inr root \<Rightarrow>
          (case extract_tools env root (extract_metadata root st) of
             (st', Some e) \<Rightarrow> (st', False)
           | (st', None) \<Rightarrow> (extract_connections root st', True)))"

subsection \<open>Read accessors\<close>

fun get_tool_by_id :: "'f tool list \<Rightarrow> pystr \<Rightarrow> 'f tool option" where
  "get_tool_by_id [] i = None"
| "get_tool_by_id (t # ts) i = (if tool_id t = i then Some t else get_tool_by_id ts i)"

fun get_source_tools :: "connection list \<Rightarrow> pystr \<Rightarrow> pystr list" where
  "get_source_tools [] i = []"
| "get_source_tools (c # cs) i =
     (if conn_destination c = i then conn_source c # get_source_tools cs i
      else get_source_tools cs i)"

fun get_destination_tools :: "connection list \<Rightarrow> pystr \<Rightarrow> pystr list" where
  "get_destination_tools [] i = []"
| "get_destination_tools (c # cs) i =
     (if conn_source c = i then conn_destination c # get_destination_tools cs i
      else get_destination_tools cs i)"

subsection \<open>Execution order\<close>

text \<open>
  \<open>graph\<close> and \<open>in_degree\<close> are dicts keyed by tool id. \<open>in_degree.items()\<close> is read in
  insertion order, which the association list keeps.
\<close>

type_synonym graph = "(pystr \<times> pystr list) list"
type_synonym in_degree = "(pystr \<times> int) list"

definition init_graph :: "'f tool list \<Rightarrow> graph \<times> in_degree" where
  \<comment> \<open>the first loop: one empty adjacency list and a zero per tool id\<close>
  "init_graph ts =
     fold (\<lambda>t gd. (AList.update (tool_id t) [] (fst gd), AList.update (tool_id t) 0 (snd gd)))
          ts ([], [])"

definition add_connection :: "connection \<Rightarrow> graph \<times> in_degree \<Rightarrow> graph \<times> in_degree" where
  "add_connection conn gd =
     (let src = conn_source conn; dest = conn_destination conn
      in case map_of (fst gd) src of
           None \<Rightarrow> gd
         | Some nbrs \<Rightarrow>
             if has_key dest (fst gd)
             then (AList.update src (nbrs @ [dest]) (fst gd),
                   AList.update dest (dict_get (snd gd) dest 0 + 1) (snd gd))
             else gd)"

definition build_graph :: "'f tool list \<Rightarrow> connection list \<Rightarrow> graph \<times> in_degree" where
  "build_graph ts conns = fold add_connection conns (init_graph ts)"

fun relax :: "pystr list \<Rightarrow> in_degree \<Rightarrow> pystr list \<Rightarrow> error + in_degree \<times> pystr list" where
  \<comment> \<open>the inner loop over the neighbours of the node taken from the queue;
      \<open>in_degree[neighbor] -= 1\<close> raises \<open>KeyError\<close> on a missing key\<close>
  "relax [] deg queue = Inr (deg, queue)"
| "relax (neighbor # rest) deg queue =
     (case map_of deg neighbor of
        None \<Rightarrow> Inl KeyError
      | Some k \<Rightarrow>
          relax rest (AList.update neighbor (k - 1) deg)
            (if k - 1 = 0 then queue @ [neighbor] else queue))"

definition weight :: "in_degree \<Rightarrow> nat" where
  "weight deg = sum_list (map (\<lambda>kv. nat (snd kv)) deg)"

lemma weight_update:
  "map_of deg n = Some k \<Longrightarrow> weight (AList.update n v deg) + nat k = weight deg + nat v"
  by (induction deg) (auto simp: weight_def)

lemma relax_measure:
  "relax ns deg queue = Inr (deg', queue') \<Longrightarrow>
   length queue' + weight deg' \<le> length queue + weight deg"
proof (induction ns arbitrary: deg queue)
  case Nil
  then show ?case by simp
next
  case (Cons n ns)
  from Cons.prems obtain k where k: "map_of deg n = Some k"
    by (auto split: option.splits)
  let ?d = "AList.update n (k - 1) deg"
  let ?q = "if k - 1 = 0 then queue @ [n] else queue"
  from Cons.prems k have "relax ns ?d ?q = Inr (deg', queue')"
    by simp
  from Cons.IH [OF this] have le: "length queue' + weight deg' \<le> length ?q + weight ?d" .
  from weight_update [OF k, of "k - 1"]
  have w: "weight ?d + nat k = weight deg + nat (k - 1)" .
  show ?case
  proof (cases "k - 1 = 0")
    case True
    then have "k = 1" by simp
    with w have "weight ?d + 1 = weight deg" by simp
    with le True show ?thesis by simp
  next
    case False
    from w have "weight ?d \<le> weight deg" by linarith
    with le False show ?thesis by simp
  qed
qed

function kahn_loop :: "graph \<Rightarrow> in_degree \<Rightarrow> pystr list \<Rightarrow> pystr list \<Rightarrow> error + pystr list" where
  \<comment> \<open>\<open>while queue:\<close> with \<open>queue.pop(0)\<close> and \<open>result.append(node)\<close>\<close>
  "kahn_loop g deg queue result =
     (case queue of
        [] \<Rightarrow> Inr result
      | node # queue' \<Rightarrow>
          (case relax (dict_get g node []) deg queue' of
             Inl e \<Rightarrow> Inl e
           | Inr (deg', queue'') \<Rightarrow> kahn_loop g deg' queue'' (result @ [node])))"
  by pat_completeness auto
termination
proof (relation "measure (\<lambda>(g, deg, queue, result). length queue + weight deg)")
  show "wf (measure (\<lambda>(g, deg, queue, result). length queue + weight deg))"
    by simp
next
  fix g :: graph and deg queue result node queue' x deg' queue''
  assume "queue = node # queue'"
    and "relax (dict_get g node []) deg queue' = Inr x" and "(deg', queue'') = x"
  then have "relax (dict_get g node []) deg queue' = Inr (deg', queue'')"
    by simp
  from relax_measure [OF this] \<open>queue = node # queue'\<close>
  show "((g, deg', queue'', result @ [node]), (g, deg, queue, result))
        \<in> measure (\<lambda>(g, deg, queue, result). length queue + weight deg)"
    by simp
qed

definition get_execution_order :: "'f tool list \<Rightarrow> connection list \<Rightarrow> error + pystr list" where
  "get_execution_order ts conns =
     (let (g, deg) = build_graph ts conns;
          queue = map fst (filter (\<lambda>kv. snd kv = 0) deg)
      in kahn_loop g deg queue [])"

section \<open>The code generator (\<open>code_generator.py\<close>)\<close>

text \<open>
  The generator's environment holds what it reads from outside the parsed workflow:
  the text of \<open>datetime.now().strftime('%Y-%m-%d %H:%M:%S')\<close>, and \<open>re.sub\<close> with the
  field-reference pattern for a replacement template that holds a backslash of its own
  (template, then subject), whose escape processing belongs to the \<open>re\<close> module.
\<close>

record gen_env =
  now :: pystr
  re_sub_escaped :: "pystr \<Rightarrow> pystr \<Rightarrow> error + pystr"

record generator =
  var_counter :: int
  tool_vars :: "(pystr \<times> pystr) list"
  imports_set :: "pystr set"

definition init_generator :: generator where
  \<comment> \<open>\<open>__init__\<close>\<close>
  "init_generator =
     \<lparr>var_counter = 0, tool_vars = [], imports_set = {''pandas as pd'', ''numpy as np''}\<rparr>"

definition dq :: pystr where
  \<comment> \<open>the double quote\<close>
  "dq = [CHR 0x22]"

definition generate_header :: "gen_env \<Rightarrow> generator \<Rightarrow> pystr list" where
  "generate_header env gen =
     [dq @ dq @ dq,
      ''Auto-generated Python script from Alteryx workflow'',
      ''Generated: '' @ now env,
      dq @ dq @ dq,
      []]
     @ map (\<lambda>imp. ''import '' @ imp) (sorted_list_of_set (imports_set gen))"

definition get_var_name :: "pystr \<Rightarrow> generator \<Rightarrow> pystr \<times> generator" where
  "get_var_name tid gen =
     (case map_of (tool_vars gen) tid of
        None \<Rightarrow> (''df_'' @ tid, gen\<lparr>tool_vars := AList.update tid (''df_'' @ tid) (tool_vars gen)\<rparr>)
      | Some v \<Rightarrow> (v, gen))"

definition get_source_var :: "'f parser \<Rightarrow> pystr \<Rightarrow> generator \<Rightarrow> pystr option \<times> generator" where
  "get_source_var p tid gen =
     (case get_source_tools (connections p) tid of
        [] \<Rightarrow> (None, gen)
      | src # _ \<Rightarrow> (case get_var_name src gen of (v, gen') \<Rightarrow> (Some v, gen')))"

fun var_names :: "pystr list \<Rightarrow> generator \<Rightarrow> pystr list \<times> generator" where
  \<comment> \<open>\<open>[self._get_var_name(src) for src in sources]\<close>\<close>
  "var_names [] gen = ([], gen)"
| "var_names (src # srcs) gen =
     (case get_var_name src gen of
        (v, gen') \<Rightarrow> (case var_names srcs gen' of (vs, gen'') \<Rightarrow> (v # vs, gen'')))"

definition get_all_source_vars :: "'f parser \<Rightarrow> pystr \<Rightarrow> generator \<Rightarrow> pystr list \<times> generator" where
  "get_all_source_vars p tid gen = var_names (get_source_tools (connections p) tid) gen"

definition not_var :: "pystr option \<Rightarrow> bool" where
  \<comment> \<open>\<open>not source_var\<close>\<close>
  "not_var v = (case v of None \<Rightarrow> True | Some s \<Rightarrow> s = [])"

definition var_text :: "pystr option \<Rightarrow> pystr" where
  \<comment> \<open>what an f-string field prints for an optional string\<close>
  "var_text v = (case v of None \<Rightarrow> ''None'' | Some s \<Rightarrow> s)"

subsection \<open>Expression translation\<close>

function sub_field_refs :: "pystr \<Rightarrow> pystr \<Rightarrow> pystr" where
  \<comment> \<open>\<open>re.sub\<close> of the field-reference pattern, a bracket pair around a non-empty body
      free of closing brackets, for a \<open>var\<close> without backslash: each leftmost match
      becomes \<open>var['body']\<close>\<close>
  "sub_field_refs var expr =
     (case expr of
        [] \<Rightarrow> []
      | c # cs \<Rightarrow>
          (let body = takeWhile (\<lambda>x. x \<noteq> CHR '']'') cs;
               rest = dropWhile (\<lambda>x. x \<noteq> CHR '']'') cs
           in if c = CHR ''['' \<and> body \<noteq> [] \<and> rest \<noteq> []
              then var @ ''['' @ sq @ body @ sq @ '']'' @ sub_field_refs var (tl rest)
              else c # sub_field_refs var cs))"
  by pat_completeness auto
termination
proof (relation "measure (\<lambda>(var, expr). length expr)")
  show "wf (measure (\<lambda>(var, expr). length expr))"
    by simp
next
  fix var expr :: pystr and c cs x xa
  assume "expr = c # cs" and "xa = dropWhile (\<lambda>x. x \<noteq> CHR '']'') cs"
  moreover have "length (tl (dropWhile (\<lambda>x. x \<noteq> CHR '']'') cs)) \<le> length cs"
    using length_dropWhile_le [of "\<lambda>x. x \<noteq> CHR '']''" cs] by simp
  ultimately show "((var, tl xa), (var, expr)) \<in> measure (\<lambda>(var, expr). length expr)"
    by simp
next
  fix var expr :: pystr and c cs
  assume "expr = c # cs"
  then show "((var, cs), (var, expr)) \<in> measure (\<lambda>(var, expr). length expr)"
    by simp
qed

definition replacements :: "(pystr \<times> pystr) list" where
  "replacements =
     [(''TONUMBER'', ''pd.to_numeric''), (''TOSTRING'', ''str''),
      (''DATETIMENOW'', ''pd.Timestamp.now''), (''DATETIMEPARSE'', ''pd.to_datetime''),
      (''SUBSTRING'', ''str.slice''), (''LENGTH'', ''str.len''), (''TRIM'', ''str.strip''),
      (''UPPER'', ''str.upper''), (''LOWER'', ''str.lower''), (''CONTAINS'', ''str.contains''),
      (''ISNULL'', ''isna''), (''IF'', ''np.where''), (''AND'', ''&''), (''OR'', ''|''),
      (''NOT'', ''~'')]"

definition convert_expression_to_pandas :: "gen_env \<Rightarrow> cfg \<Rightarrow> pystr \<Rightarrow> error + pystr" where
  \<comment> \<open>\<open>re.sub\<close> raises \<open>TypeError\<close> on a subject that is not a string\<close>
  "convert_expression_to_pandas env expr var =
     (case expr of
        CStr e \<Rightarrow>
          (case (if CHR 0x5C \<in> set var
                 then re_sub_escaped env (var @ ''['' @ sq @ bslash @ ''1'' @ sq @ '']'') e
                 else Inr (sub_field_refs var e)) of
             Inl err \<Rightarrow> Inl err
           | Inr pandas_expr \<Rightarrow>
               Inr (fold (\<lambda>r acc. py_replace (fst r) (snd r) acc) replacements pandas_expr))
      | _ \<Rightarrow> Inl TypeError)"

subsection \<open>Fragment generators\<close>

text \<open>
  Each generator gets the parser, the tool, the tool's variable name and the generator
  state, and returns the fragment's lines with the state after it. \<open>endswith\<close> and
  \<open>lower\<close> raise \<open>AttributeError\<close> on a configuration value that is not a string.
\<close>

definition generate_input_data ::
  "'f tool \<Rightarrow> pystr \<Rightarrow> generator \<Rightarrow> error + pystr list \<times> generator" where
  "generate_input_data tool var gen =
     (let file_path = dict_get (tool_config tool) ''File''
                        (dict_get (tool_config tool) ''FileName'' (CStr ''input.csv''));
          code = [''# Read input file: '' @ py_str file_path];
          loaded = ''print(f'' @ sq @ ''Loaded {len('' @ var @ '')} rows from ''
                     @ py_str file_path @ sq @ '')''
      in case file_path of
           CStr fp \<Rightarrow>
             if py_endswith fp ''.csv''
             then Inr (code @ [var @ '' = pd.read_csv('' @ sq @ fp @ sq @ '')'', loaded], gen)
             else if py_endswith fp ''.xlsx'' \<or> py_endswith fp ''.xls''
             then Inr (code @ [var @ '' = pd.read_excel('' @ sq @ fp @ sq @ '')'', loaded],
                       gen\<lparr>imports_set := insert ''openpyxl'' (imports_set gen)\<rparr>)
             else if py_endswith fp ''.txt''
             then (let delimiter = dict_get (tool_config tool) ''Delimeter'' (CStr (bslash @ ''t''))
                   in Inr (code @ [var @ '' = pd.read_csv('' @ sq @ fp @ sq @ '', delimiter=''
                                     @ sq @ py_str delimiter @ sq @ '')'', loaded], gen))
             else Inr (code @ [var @ '' = pd.read_csv('' @ sq @ fp @ sq
                                 @ '')  # Adjust read method as needed'', loaded], gen)
         | _ \<Rightarrow> Inl AttributeError)"

definition generate_output_data ::
  "'f parser \<Rightarrow> 'f tool \<Rightarrow> pystr \<Rightarrow> generator \<Rightarrow> error + pystr list \<times> generator" where
  "generate_output_data p tool var gen =
     (case get_source_var p (tool_id tool) gen of
        (source_var, gen') \<Rightarrow>
          if not_var source_var
          then Inr ([''# Output tool '' @ tool_id tool @ '': No source data''], gen')
          else
            (let sv = var_text source_var;
                 file_path = dict_get (tool_config tool) ''File''
                               (dict_get (tool_config tool) ''FileName_Out'' (CStr ''output.csv''));
                 code = [''# Write output file: '' @ py_str file_path];
                 wrote = ''print(f'' @ sq @ ''Wrote {len('' @ sv @ '')} rows to ''
                           @ py_str file_path @ sq @ '')''
             in case file_path of
                  CStr fp \<Rightarrow>
                    if py_endswith fp ''.csv''
                    then Inr (code @ [sv @ ''.to_csv('' @ sq @ fp @ sq @ '', index=False)'',
                                      wrote], gen')
                    else if py_endswith fp ''.xlsx'' \<or> py_endswith fp ''.xls''
                    then Inr (code @ [sv @ ''.to_excel('' @ sq @ fp @ sq @ '', index=False)'',
                                      wrote], gen')
                    else Inr (code @ [sv @ ''.to_csv('' @ sq @ fp @ sq @ '', index=False)'',
                                      wrote], gen')
                | _ \<Rightarrow> Inl AttributeError))"

definition generate_filter ::
  "gen_env \<Rightarrow> 'f parser \<Rightarrow> 'f tool \<Rightarrow> pystr \<Rightarrow> generator \<Rightarrow> error + pystr list \<times> generator"
  where
  "generate_filter env p tool var gen =
     (case get_source_var p (tool_id tool) gen of
        (source_var, gen') \<Rightarrow>
          if not_var source_var then Inr ([''# Filter tool: No source data''], gen')
          else
            (let sv = var_text source_var;
                 filter_expr = dict_get (tool_config tool) ''Expression''
                                 (dict_get (tool_config tool) ''Filter'' (CStr []));
                 code = [''# Apply filter''];
                 rows = ''print(f'' @ sq @ ''Filter: {len('' @ var @ '')} rows (from {len(''
                          @ sv @ '')})'' @ sq @ '')''
             in if truthy filter_expr
                then (case convert_expression_to_pandas env filter_expr sv of
                        Inl e \<Rightarrow> Inl e
                      | Inr pandas_expr \<Rightarrow>
                          Inr (code @ [var @ '' = '' @ sv @ ''['' @ pandas_expr @ '']'', rows],
                               gen'))
                else Inr (code @ [''# TODO: Add filter condition'',
                                  var @ '' = '' @ sv @ ''.copy()'', rows], gen')))"

definition generate_select ::
  "'f parser \<Rightarrow> 'f tool \<Rightarrow> pystr \<Rightarrow> generator \<Rightarrow> pystr list \<times> generator" where
  "generate_select p tool var gen =
     (case get_source_var p (tool_id tool) gen of
        (source_var, gen') \<Rightarrow>
          if not_var source_var then ([''# Select tool: No source data''], gen')
          else ([''# Select and configure fields'',
                 var @ '' = '' @ var_text source_var @ ''.copy()'',
                 ''# TODO: Apply field selections and type conversions''], gen'))"

definition generate_formula ::
  "gen_env \<Rightarrow> 'f parser \<Rightarrow> 'f tool \<Rightarrow> pystr \<Rightarrow> generator \<Rightarrow> error + pystr list \<times> generator"
  where
  "generate_formula env p tool var gen =
     (case get_source_var p (tool_id tool) gen of
        (source_var, gen') \<Rightarrow>
          if not_var source_var then Inr ([''# Formula tool: No source data''], gen')
          else
            (let code = [''# Apply formula'', var @ '' = '' @ var_text source_var @ ''.copy()''];
                 formula = dict_get (tool_config tool) ''Expression''
                             (dict_get (tool_config tool) ''Formula'' (CStr []));
                 output_field = dict_get (tool_config tool) ''Field''
                                  (dict_get (tool_config tool) ''OutputField''
                                     (CStr ''new_column''));
                 target = var @ ''['' @ sq @ py_str output_field @ sq @ ''] = ''
             in if truthy formula
                then (case convert_expression_to_pandas env formula var of
                        Inl e \<Rightarrow> Inl e
                      | Inr pandas_expr \<Rightarrow> Inr (code @ [target @ pandas_expr], gen'))
                else Inr (code @ [''# TODO: Add formula expression'', target @ ''None''], gen')))"

definition generate_join ::
  "'f parser \<Rightarrow> 'f tool \<Rightarrow> pystr \<Rightarrow> generator \<Rightarrow> error + pystr list \<times> generator" where
  "generate_join p tool var gen =
     (case get_all_source_vars p (tool_id tool) gen of
        (left_var # right_var # _, gen') \<Rightarrow>
          (case dict_get (tool_config tool) ''JoinType'' (CStr ''inner'') of
             CStr jt \<Rightarrow>
               Inr ([''# Join two datasets'',
                     ''# TODO: Specify join keys'',
                     var @ '' = pd.merge('',
                     ''    '' @ left_var @ '','',
                     ''    '' @ right_var @ '','',
                     ''    on='' @ sq @ ''key_column'' @ sq @ '',  # Specify join column(s)'',
                     ''    how='' @ sq @ py_lower jt @ sq,
                     '')'',
                     ''print(f'' @ sq @ ''Join: {len('' @ var @ '')} rows'' @ sq @ '')''], gen')
           | _ \<Rightarrow> Inl AttributeError)
      | (_, gen') \<Rightarrow> Inr ([''# Join tool: Insufficient source data''], gen'))"

definition generate_union ::
  "'f parser \<Rightarrow> 'f tool \<Rightarrow> pystr \<Rightarrow> generator \<Rightarrow> pystr list \<times> generator" where
  "generate_union p tool var gen =
     (case get_all_source_vars p (tool_id tool) gen of
        ([], gen') \<Rightarrow> ([''# Union tool: No source data''], gen')
      | (source_vars, gen') \<Rightarrow>
          ([''# Union multiple datasets'',
            (if length source_vars = 1 then var @ '' = '' @ hd source_vars @ ''.copy()''
             else var @ '' = pd.concat(['' @ py_join '', '' source_vars
                    @ ''], ignore_index=True)''),
            ''print(f'' @ sq @ ''Union: {len('' @ var @ '')} rows'' @ sq @ '')''], gen'))"

definition generate_sort ::
  "'f parser \<Rightarrow> 'f tool \<Rightarrow> pystr \<Rightarrow> generator \<Rightarrow> pystr list \<times> generator" where
  "generate_sort p tool var gen =
     (case get_source_var p (tool_id tool) gen of
        (source_var, gen') \<Rightarrow>
          if not_var source_var then ([''# Sort tool: No source data''], gen')
          else ([''# Sort data'',
                 ''# TODO: Specify sort columns and order'',
                 var @ '' = '' @ var_text source_var @ ''.sort_values('' @ sq @ ''column_name''
                   @ sq @ '', ascending=True)''], gen'))"

definition generate_summarize ::
  "'f parser \<Rightarrow> 'f tool \<Rightarrow> pystr \<Rightarrow> generator \<Rightarrow> pystr list \<times> generator" where
  "generate_summarize p tool var gen =
     (case get_source_var p (tool_id tool) gen of
        (source_var, gen') \<Rightarrow>
          if not_var source_var then ([''# Summarize tool: No source data''], gen')
          else ([''# Summarize/Group by'',
                 ''# TODO: Specify group by columns and aggregations'',
                 var @ '' = '' @ var_text source_var @ ''.groupby('' @ sq @ ''group_column''
                   @ sq @ '').agg({'',
                 ''    '' @ sq @ ''value_column'' @ sq @ '': '' @ sq @ ''sum'' @ sq @ '','',
                 ''    '' @ sq @ ''count_column'' @ sq @ '': '' @ sq @ ''count'' @ sq,
                 ''}).reset_index()''], gen'))"

definition generate_unique ::
  "'f parser \<Rightarrow> 'f tool \<Rightarrow> pystr \<Rightarrow> generator \<Rightarrow> pystr list \<times> generator" where
  "generate_unique p tool var gen =
     (case get_source_var p (tool_id tool) gen of
        (source_var, gen') \<Rightarrow>
          if not_var source_var then ([''# Unique tool: No source data''], gen')
          else ([''# Remove duplicates'',
                 var @ '' = '' @ var_text source_var @ ''.drop_duplicates()'',
                 ''print(f'' @ sq @ ''Unique: {len('' @ var @ '')} rows (from {len(''
                   @ var_text source_var @ '')})'' @ sq @ '')''], gen'))"

definition generate_sample ::
  "'f parser \<Rightarrow> 'f tool \<Rightarrow> pystr \<Rightarrow> generator \<Rightarrow> pystr list \<times> generator" where
  "generate_sample p tool var gen =
     (case get_source_var p (tool_id tool) gen of
        (source_var, gen') \<Rightarrow>
          if not_var source_var then ([''# Sample tool: No source data''], gen')
          else (let sample_size = dict_get (tool_config tool) ''N'' (CStr ''100'')
                in ([''# Sample records'',
                     var @ '' = '' @ var_text source_var @ ''.sample(n='' @ py_str sample_size
                       @ '', random_state=42)''], gen')))"

definition generate_record_id ::
  "'f parser \<Rightarrow> 'f tool \<Rightarrow> pystr \<Rightarrow> generator \<Rightarrow> pystr list \<times> generator" where
  "generate_record_id p tool var gen =
     (case get_source_var p (tool_id tool) gen of
        (source_var, gen') \<Rightarrow>
          if not_var source_var then ([''# Record ID tool: No source data''], gen')
          else ([''# Add record ID'',
                 var @ '' = '' @ var_text source_var @ ''.copy()'',
                 var @ ''['' @ sq @ ''RecordID'' @ sq @ ''] = range(1, len('' @ var
                   @ '') + 1)''], gen'))"

definition generate_text_to_columns ::
  "'f parser \<Rightarrow> 'f tool \<Rightarrow> pystr \<Rightarrow> generator \<Rightarrow> pystr list \<times> generator" where
  "generate_text_to_columns p tool var gen =
     (case get_source_var p (tool_id tool) gen of
        (source_var, gen') \<Rightarrow>
          if not_var source_var then ([''# Text to Columns tool: No source data''], gen')
          else (let delimiter = dict_get (tool_config tool) ''Delimiter'' (CStr '','')
                in ([''# Split text column'',
                     var @ '' = '' @ var_text source_var @ ''.copy()'',
                     ''# TODO: Specify column to split'',
                     ''split_cols = '' @ var @ ''['' @ sq @ ''text_column'' @ sq
                       @ ''].str.split('' @ sq @ py_str delimiter @ sq @ '', expand=True)'',
                     var @ '' = pd.concat(['' @ var @ '', split_cols], axis=1)''], gen')))"

definition generate_cross_tab ::
  "'f parser \<Rightarrow> 'f tool \<Rightarrow> pystr \<Rightarrow> generator \<Rightarrow> pystr list \<times> generator" where
  "generate_cross_tab p tool var gen =
     (case get_source_var p (tool_id tool) gen of
        (source_var, gen') \<Rightarrow>
          if not_var source_var then ([''# Cross Tab tool: No source data''], gen')
          else ([''# Create cross-tabulation'',
                 ''# TODO: Specify row, column, and value fields'',
                 var @ '' = pd.pivot_table('',
                 ''    '' @ var_text source_var @ '','',
                 ''    values='' @ sq @ ''value_column'' @ sq @ '','',
                 ''    index='' @ sq @ ''row_column'' @ sq @ '','',
                 ''    columns='' @ sq @ ''column_column'' @ sq @ '','',
                 ''    aggfunc='' @ sq @ ''sum'' @ sq,
                 '').reset_index()''], gen'))"

definition generate_transpose ::
  "'f parser \<Rightarrow> 'f tool \<Rightarrow> pystr \<Rightarrow> generator \<Rightarrow> pystr list \<times> generator" where
  "generate_transpose p tool var gen =
     (case get_source_var p (tool_id tool) gen of
        (source_var, gen') \<Rightarrow>
          if not_var source_var then ([''# Transpose tool: No source data''], gen')
          else ([''# Transpose data'',
                 var @ '' = '' @ var_text source_var @ ''.transpose()''], gen'))"

definition generate_browse ::
  "'f parser \<Rightarrow> 'f tool \<Rightarrow> pystr \<Rightarrow> generator \<Rightarrow> pystr list \<times> generator" where
  "generate_browse p tool var gen =
     (case get_source_var p (tool_id tool) gen of
        (source_var, gen') \<Rightarrow>
          if not_var source_var then ([''# Browse tool: No source data''], gen')
          else ([''# Display data (Browse equivalent)'',
                 ''print(f'' @ sq @ bslash @ ''nBrowse - First 10 rows:'' @ sq @ '')'',
                 ''print('' @ var_text source_var @ ''.head(10))'',
                 ''print(f'' @ sq @ bslash @ ''nShape: {'' @ var_text source_var @ ''.shape}''
                   @ sq @ '')''], gen'))"

definition generate_generic ::
  "'f parser \<Rightarrow> 'f tool \<Rightarrow> pystr \<Rightarrow> generator \<Rightarrow> pystr list \<times> generator" where
  "generate_generic p tool var gen =
     (case get_source_var p (tool_id tool) gen of
        (source_var, gen') \<Rightarrow>
          ([''# Tool type '' @ sq @ tool_type tool @ sq @ '' - requires manual implementation'']
           @ (if \<not> not_var source_var
              then [var @ '' = '' @ var_text source_var @ ''.copy()'',
                    ''# TODO: Implement '' @ tool_type tool @ '' logic'']
              else [''# No source data available'']), gen'))"

subsection \<open>Script assembly\<close>

definition generate_tool_code ::
  "gen_env \<Rightarrow> 'f parser \<Rightarrow> 'f tool \<Rightarrow> generator \<Rightarrow> error + pystr list \<times> generator" where
  "generate_tool_code env p tool gen =
     (case get_var_name (tool_id tool) gen of
        (var_name, gen1) \<Rightarrow>
          (let ttype = tool_type tool;
               ann = (case tool_annotation tool of
                        None \<Rightarrow> ''Tool '' @ tool_id tool
                      | Some a \<Rightarrow> if a \<noteq> [] then a else ''Tool '' @ tool_id tool);
               code = [''# '' @ replicate 60 (CHR ''-''),
                       ''# '' @ ann @ '' (Type: '' @ ttype @ '', ID: '' @ tool_id tool @ '')'',
                       ''# '' @ replicate 60 (CHR ''-'')];
               body =
                 (if ttype = ''input_data'' then generate_input_data tool var_name gen1
                  else if ttype = ''output_data'' then generate_output_data p tool var_name gen1
                  else if ttype = ''filter'' then generate_filter env p tool var_name gen1
                  else if ttype = ''select'' then Inr (generate_select p tool var_name gen1)
                  else if ttype = ''formula'' then generate_formula env p tool var_name gen1
                  else if ttype = ''join'' then generate_join p tool var_name gen1
                  else if ttype = ''union'' then Inr (generate_union p tool var_name gen1)
                  else if ttype = ''sort'' then Inr (generate_sort p tool var_name gen1)
                  else if ttype = ''summarize'' then Inr (generate_summarize p tool var_name gen1)
                  else if ttype = ''unique'' then Inr (generate_unique p tool var_name gen1)
                  else if ttype = ''sample'' then Inr (generate_sample p tool var_name gen1)
                  else if ttype = ''record_id'' then Inr (generate_record_id p tool var_name gen1)
                  else if ttype = ''text_to_columns''
                  then Inr (generate_text_to_columns p tool var_name gen1)
                  else if ttype = ''cross_tab'' then Inr (generate_cross_tab p tool var_name gen1)
                  else if ttype = ''transpose'' then Inr (generate_transpose p tool var_name gen1)
                  else if ttype = ''browse'' then Inr (generate_browse p tool var_name gen1)
                  else Inr (generate_generic p tool var_name gen1))
           in case body of
                Inl e \<Rightarrow> Inl e
              | Inr (lines, gen2) \<Rightarrow> Inr (code @ lines, gen2)))"

fun generate_loop ::
  "gen_env \<Rightarrow> 'f parser \<Rightarrow> pystr list \<Rightarrow> pystr list \<Rightarrow> generator
   \<Rightarrow> error + pystr list \<times> generator" where
  \<comment> \<open>\<open>for tool_id in execution_order:\<close>, extending \<open>code_lines\<close>\<close>
  "generate_loop env p [] code_lines gen = Inr (code_lines, gen)"
| "generate_loop env p (tid # rest) code_lines gen =
     (case get_tool_by_id (tools p) tid of
        None \<Rightarrow> generate_loop env p rest code_lines gen
      | Some tool \<Rightarrow>
          (case generate_tool_code env p tool gen of
             Inl e \<Rightarrow> Inl e
           | Inr (tool_code, gen') \<Rightarrow>
               if tool_code \<noteq> []
               then generate_loop env p rest
                      (code_lines @ map (\<lambda>line. ''    '' @ line) tool_code @ [''    '']) gen'
               else generate_loop env p rest code_lines gen'))"

definition generate :: "gen_env \<Rightarrow> 'f parser \<Rightarrow> generator \<Rightarrow> error + pystr \<times> generator" where
  \<comment> \<open>the script's text and the generator after the call; the header is built first\<close>
  "generate env p gen =
     (let code_lines =
            generate_header env gen
            @ [[],
               ''def main():'',
               ''    '' @ dq @ dq @ dq @ ''Main workflow execution function'' @ dq @ dq @ dq,
               ''    '']
      in case get_execution_order (tools p) (connections p) of
           Inl e \<Rightarrow> Inl e
         | Inr execution_order \<Rightarrow>
             (case generate_loop env p execution_order code_lines gen of
                Inl e \<Rightarrow> Inl e
              | Inr (code_lines', gen') \<Rightarrow>
                  Inr (py_join newline
                         (code_lines'
                          @ [''    return True'',
                             [],
                             [],
                             ''if __name__ == '' @ sq @ ''__main__'' @ sq @ '':'',
                             ''    main()'']),
                       gen')))"

section \<open>Notions used to state the properties\<close>

text \<open>
  The connections whose two ends are tool ids, as pairs; the position of an element in
  a list (\<open>list.index\<close>); and the marker order of the classifier as the specification
  words it, each marker with the tag it stands for.
\<close>

definition induced_edges :: "'f tool list \<Rightarrow> connection list \<Rightarrow> (pystr \<times> pystr) list" where
  \<comment> \<open>the edges of the subgraph induced on the known tool ids\<close>
  "induced_edges ts conns =
     map (\<lambda>c. (conn_source c, conn_destination c))
       (filter (\<lambda>c. conn_source c \<in> tool_id ` set ts \<and> conn_destination c \<in> tool_id ` set ts)
          conns)"

fun index_of :: "'a list \<Rightarrow> 'a \<Rightarrow> nat" where
  "index_of [] x = 0"
| "index_of (y # ys) x = (if x = y then 0 else Suc (index_of ys x))"

definition spec_marker_order :: "(pystr \<times> pystr) list" where
  \<comment> \<open>the precedence order of the specification, to be compared with the classifier\<close>
  "spec_marker_order =
     [(''filter'', ''filter''), (''join'', ''join''), (''sort'', ''sort''),
      (''summarize'', ''summarize''), (''groupby'', ''summarize''),
      (''formula'', ''formula''), (''select'', ''select''), (''unique'', ''unique''),
      (''sample'', ''sample''), (''recordid'', ''record_id'')]"

definition leaf_value :: "element \<Rightarrow> cfg" where
  \<comment> \<open>the value the specification gives a leaf element\<close>
  "leaf_value c =
     (if (\<exists>s. text_of c = Some s \<and> (\<exists>ch\<in>set s. \<not> py_isspace ch))
      then CStr (py_strip (the (text_of c)))
      else if attrib c \<noteq> [] then CDict (map (\<lambda>(a, v). (a, CStr v)) (attrib c))
      else CNone)"

fun extract_depth :: "element \<Rightarrow> nat" where
  \<comment> \<open>how many nested activations the extraction of an element needs: one for the
      element, and under it those of its deepest child that has children\<close>
  "extract_depth (Element t a x cs) =
     Suc (fold max (map (\<lambda>c. if children c \<noteq> [] then extract_depth c else 0) cs) 0)"

definition config_entry :: "nat \<Rightarrow> element \<Rightarrow> error + cfg" where
  \<comment> \<open>the value stored for one child of a configuration element, with the room left for
      the extraction of the child\<close>
  "config_entry room c =
     (if children c \<noteq> []
      then (case recursive_config_extract room c [] [] of
              Inl e \<Rightarrow> Inl e
            | Inr sub \<Rightarrow> Inr (CDict sub))
      else Inr (leaf_value c))"

definition nbrs :: "(pystr \<times> pystr) list \<Rightarrow> pystr \<Rightarrow> pystr list" where
  \<comment> \<open>the adjacency list of a node: the other ends of its outgoing edges, in order\<close>
  "nbrs E v = map snd (filter (\<lambda>e. fst e = v) E)"

definition indeg :: "(pystr \<times> pystr) list \<Rightarrow> pystr set \<Rightarrow> pystr \<Rightarrow> nat" where
  \<comment> \<open>the number of edges into \<open>t\<close> whose source is not in \<open>D\<close>\<close>
  "indeg E D t = length (filter (\<lambda>e. snd e = t \<and> fst e \<notin> D) E)"

definition edge_of :: "pystr set \<Rightarrow> connection \<Rightarrow> (pystr \<times> pystr) list" where
  \<comment> \<open>the edge a connection adds to the graph, if any\<close>
  "edge_of N c =
     (if conn_source c \<in> N \<and> conn_destination c \<in> N
      then [(conn_source c, conn_destination c)] else [])"

definition graph_ok :: "pystr set \<Rightarrow> (pystr \<times> pystr) list \<Rightarrow> graph \<times> in_degree \<Rightarrow> bool" where
  \<comment> \<open>what the two dicts hold after the edges \<open>E\<close> have been added\<close>
  "graph_ok N E gd \<longleftrightarrow>
     distinct (map fst (snd gd)) \<and> fst ` set (snd gd) = N \<and> fst ` set (fst gd) = N \<and>
     (\<forall>v\<in>N. map_of (fst gd) v = Some (nbrs E v)
           \<and> map_of (snd gd) v = Some (int (indeg E {} v)))"

definition kahn_inv ::
  "pystr set \<Rightarrow> (pystr \<times> pystr) list \<Rightarrow> graph \<Rightarrow> in_degree \<Rightarrow> pystr list \<Rightarrow> pystr list \<Rightarrow> bool"
  where
  \<comment> \<open>the invariant of the main loop\<close>
  "kahn_inv N E g deg queue result \<longleftrightarrow>
     (\<forall>v\<in>N. dict_get g v [] = nbrs E v) \<and>
     set E \<subseteq> N \<times> N \<and>
     distinct (result @ queue) \<and> set (result @ queue) \<subseteq> N \<and>
     (\<forall>t\<in>N. map_of deg t = Some (int (indeg E (set result) t))) \<and>
     (\<forall>t\<in>N. t \<in> set (result @ queue) \<longleftrightarrow> indeg E (set result) t = 0) \<and>
     (\<forall>e\<in>set E. snd e \<in> set result \<longrightarrow>
         fst e \<in> set result \<and> index_of result (fst e) < index_of result (snd e))"

section \<open>Example documents\<close>

text \<open>
  The examples give floats as whole numbers, which is all they need.
\<close>

definition chain_bytes :: pystr where
  \<comment> \<open>the chain of the specification: input (1), filter (2), output (3), with 1 to 2 and 2 to 3\<close>
  "chain_bytes =
      ''<AlteryxDocument yxmdVer='' @ dq @ ''2023.1'' @ dq @ ''><Nodes><Node ToolID='' @ dq @ ''1'' @ dq @ ''><GuiSettings>''
      @ ''<Position x='' @ dq @ ''54'' @ dq @ '' y='' @ dq @ ''54'' @ dq @ ''/></GuiSettings>''
      @ ''<EngineSettings EngineDll='' @ dq @ ''AlteryxBasePluginsEngine.dll'' @ dq @ ''/><Properties>''
      @ ''<Configuration><File>a.csv</File></Configuration><Annotation><Name>Read</Name>''
      @ ''</Annotation></Properties></Node><Node ToolID='' @ dq @ ''2'' @ dq @ ''>''
      @ ''<EngineSettings EngineDll='' @ dq @ ''AlteryxBasePluginsEngine.dll'' @ dq @ ''/><Properties>''
      @ ''<Configuration><Filter>[Amount] &gt; 100</Filter></Configuration></Properties>''
      @ ''</Node><Node ToolID='' @ dq @ ''3'' @ dq @ ''>''
      @ ''<EngineSettings EngineDll='' @ dq @ ''AlteryxBasePluginsEngine.dll'' @ dq @ ''/><Properties>''
      @ ''<Configuration><File>b.csv</File><FileName_Out>b.csv</FileName_Out>''
      @ ''</Configuration></Properties></Node></Nodes><Connections><Connection><Origin>''
      @ ''1</Origin><Destination>2</Destination></Connection><Connection><Origin>''
      @ ''2</Origin><Destination>3</Destination></Connection></Connections>''
      @ ''</AlteryxDocument>''"

definition chain_doc :: element where
  \<comment> \<open>the tree of \<open>chain_bytes\<close>\<close>
  "chain_doc =
     Element ''AlteryxDocument'' [(''yxmdVer'', ''2023.1'')] None
       [Element ''Nodes'' [] None
          [Element ''Node'' [(''ToolID'', ''1'')] None
             [Element ''GuiSettings'' [] None
                [Element ''Position'' [(''x'', ''54''), (''y'', ''54'')] None []],
              Element ''EngineSettings'' [(''EngineDll'', ''AlteryxBasePluginsEngine.dll'')] None [],
              Element ''Properties'' [] None
                [Element ''Configuration'' [] None
                   [Element ''File'' [] (Some ''a.csv'') []],
                 Element ''Annotation'' [] None
                   [Element ''Name'' [] (Some ''Read'') []]]],
           Element ''Node'' [(''ToolID'', ''2'')] None
             [Element ''EngineSettings'' [(''EngineDll'', ''AlteryxBasePluginsEngine.dll'')] None [],
              Element ''Properties'' [] None
                [Element ''Configuration'' [] None
                   [Element ''Filter'' [] (Some ''[Amount] > 100'') []]]],
           Element ''Node'' [(''ToolID'', ''3'')] None
             [Element ''EngineSettings'' [(''EngineDll'', ''AlteryxBasePluginsEngine.dll'')] None [],
              Element ''Properties'' [] None
                [Element ''Configuration'' [] None
                   [Element ''File'' [] (Some ''b.csv'') [],
                    Element ''FileName_Out'' [] (Some ''b.csv'') []]]]],
        Element ''Connections'' [] None
          [Element ''Connection'' [] None
             [Element ''Origin'' [] (Some ''1'') [],
              Element ''Destination'' [] (Some ''2'') []],
           Element ''Connection'' [] None
             [Element ''Origin'' [] (Some ''2'') [],
              Element ''Destination'' [] (Some ''3'') []]]]"

definition bad_position_bytes :: pystr where
  \<comment> \<open>a well-formed document whose second node has a position that is not a number\<close>
  "bad_position_bytes =
      ''<AlteryxDocument><Properties><MetaInfo><Author>Ann</Author></MetaInfo>''
      @ ''</Properties><Nodes><Node ToolID='' @ dq @ ''1'' @ dq @ ''><Properties><Configuration><File>''
      @ ''a.csv</File></Configuration></Properties></Node><Node ToolID='' @ dq @ ''2'' @ dq @ ''><GuiSettings>''
      @ ''<Position x='' @ dq @ ''abc'' @ dq @ '' y='' @ dq @ ''0'' @ dq @ ''/></GuiSettings></Node></Nodes><Connections><Connection>''
      @ ''<Origin>1</Origin><Destination>2</Destination></Connection></Connections>''
      @ ''</AlteryxDocument>''"

definition bad_position_doc :: element where
  \<comment> \<open>the tree of \<open>bad_position_bytes\<close>\<close>
  "bad_position_doc =
     Element ''AlteryxDocument'' [] None
       [Element ''Properties'' [] None
          [Element ''MetaInfo'' [] None
             [Element ''Author'' [] (Some ''Ann'') []]],
        Element ''Nodes'' [] None
          [Element ''Node'' [(''ToolID'', ''1'')] None
             [Element ''Properties'' [] None
                [Element ''Configuration'' [] None
                   [Element ''File'' [] (Some ''a.csv'') []]]],
           Element ''Node'' [(''ToolID'', ''2'')] None
             [Element ''GuiSettings'' [] None
                [Element ''Position'' [(''x'', ''abc''), (''y'', ''0'')] None []]]],
        Element ''Connections'' [] None
          [Element ''Connection'' [] None
             [Element ''Origin'' [] (Some ''1'') [],
              Element ''Destination'' [] (Some ''2'') []]]]"

definition xlsx_bytes :: pystr where
  \<comment> \<open>one input node that reads an Excel file\<close>
  "xlsx_bytes =
      ''<AlteryxDocument><Nodes><Node ToolID='' @ dq @ ''1'' @ dq @ ''><Properties><Configuration><File>''
      @ ''data.xlsx</File></Configuration></Properties></Node></Nodes></AlteryxDocument>''"

definition xlsx_doc :: element where
  \<comment> \<open>the tree of \<open>xlsx_bytes\<close>\<close>
  "xlsx_doc =
     Element ''AlteryxDocument'' [] None
       [Element ''Nodes'' [] None
          [Element ''Node'' [(''ToolID'', ''1'')] None
             [Element ''Properties'' [] None
                [Element ''Configuration'' [] None
                   [Element ''File'' [] (Some ''data.xlsx'') []]]]]]"

definition duplicate_bytes :: pystr where
  \<comment> \<open>two nodes with the same id and no connection\<close>
  "duplicate_bytes =
      ''<AlteryxDocument><Nodes><Node ToolID='' @ dq @ ''1'' @ dq @ ''/><Node ToolID='' @ dq @ ''1'' @ dq @ ''/></Nodes>''
      @ ''</AlteryxDocument>''"

definition duplicate_doc :: element where
  \<comment> \<open>the tree of \<open>duplicate_bytes\<close>\<close>
  "duplicate_doc =
     Element ''AlteryxDocument'' [] None
       [Element ''Nodes'' [] None
          [Element ''Node'' [(''ToolID'', ''1'')] None [],
           Element ''Node'' [(''ToolID'', ''1'')] None []]]"

definition cycle_bytes :: pystr where
  \<comment> \<open>three nodes where 1 feeds 2 and 2 and 3 feed each other\<close>
  "cycle_bytes =
      ''<AlteryxDocument><Nodes><Node ToolID='' @ dq @ ''1'' @ dq @ ''/><Node ToolID='' @ dq @ ''2'' @ dq @ ''/><Node ToolID='' @ dq @ ''3'' @ dq @ ''/>''
      @ ''</Nodes><Connections><Connection><Origin>1</Origin><Destination>2</Destination>''
      @ ''</Connection><Connection><Origin>2</Origin><Destination>3</Destination>''
      @ ''</Connection><Connection><Origin>3</Origin><Destination>2</Destination>''
      @ ''</Connection></Connections></AlteryxDocument>''"

definition cycle_doc :: element where
  \<comment> \<open>the tree of \<open>cycle_bytes\<close>\<close>
  "cycle_doc =
     Element ''AlteryxDocument'' [] None
       [Element ''Nodes'' [] None
          [Element ''Node'' [(''ToolID'', ''1'')] None [],
           Element ''Node'' [(''ToolID'', ''2'')] None [],
           Element ''Node'' [(''ToolID'', ''3'')] None []],
        Element ''Connections'' [] None
          [Element ''Connection'' [] None
             [Element ''Origin'' [] (Some ''1'') [],
              Element ''Destination'' [] (Some ''2'') []],
           Element ''Connection'' [] None
             [Element ''Origin'' [] (Some ''2'') [],
              Element ''Destination'' [] (Some ''3'') []],
           Element ''Connection'' [] None
             [Element ''Origin'' [] (Some ''3'') [],
              Element ''Destination'' [] (Some ''2'') []]]]"

definition nested_bytes :: pystr where
  \<comment> \<open>a second node whose configuration nests three levels of elements\<close>
  "nested_bytes =
      ''<AlteryxDocument><Nodes><Node ToolID='' @ dq @ ''1'' @ dq @ ''><Properties><Configuration><File>''
      @ ''a.csv</File></Configuration></Properties></Node><Node ToolID='' @ dq @ ''2'' @ dq @ ''><Properties>''
      @ ''<Configuration><A><B><C>x</C></B></A></Configuration></Properties></Node>''
      @ ''</Nodes></AlteryxDocument>''"

definition nested_doc :: element where
  \<comment> \<open>the tree of \<open>nested_bytes\<close>\<close>
  "nested_doc =
     Element ''AlteryxDocument'' [] None
       [Element ''Nodes'' [] None
          [Element ''Node'' [(''ToolID'', ''1'')] None
             [Element ''Properties'' [] None
                [Element ''Configuration'' [] None
                   [Element ''File'' [] (Some ''a.csv'') []]]],
           Element ''Node'' [(''ToolID'', ''2'')] None
             [Element ''Properties'' [] None
                [Element ''Configuration'' [] None
                   [Element ''A'' [] None
                      [Element ''B'' [] None
                         [Element ''C'' [] (Some ''x'') []]]]]]]]"

definition sibling_config :: element where
  \<comment> \<open>a configuration element with two children of the same tag\<close>
  "sibling_config =
     Element ''Configuration'' [] None
       [Element ''Field'' [] (Some ''a'') [],
        Element ''Opts'' [(''mode'', ''x'')] None [],
        Element ''Field'' [] (Some '' b '') [],
        Element ''Empty'' [] None [],
        Element ''Nested'' [] None
          [Element ''K'' [] (Some ''v'') []]]"

definition example_float :: "int + pystr \<Rightarrow> error + int" where
  \<comment> \<open>\<open>float\<close> on the arguments of the examples: an int, a string of decimal digits,
      and a string without any digit, on which it raises\<close>
  "example_float a =
     (case a of
        Inl n \<Rightarrow> Inr n
      | Inr s \<Rightarrow>
          if s \<noteq> [] \<and> list_all (\<lambda>c. c \<in> set ''0123456789'') s
          then Inr (fold (\<lambda>c n. 10 * n + (of_char c - 48)) s 0)
          else Inl ValueError)"

definition example_fromstring :: "pystr \<Rightarrow> error + element" where
  \<comment> \<open>\<open>ET.fromstring\<close> on the example documents\<close>
  "example_fromstring b =
     (if b = chain_bytes then Inr chain_doc
      else if b = bad_position_bytes then Inr bad_position_doc
      else if b = xlsx_bytes then Inr xlsx_doc
      else if b = duplicate_bytes then Inr duplicate_doc
      else if b = cycle_bytes then Inr cycle_doc
      else if b = nested_bytes then Inr nested_doc
      else Inl ParseError)"

definition example_env :: "int py_env" where
  \<comment> \<open>a call of \<open>parse\<close> near the bottom of the stack, under the usual limit of 1000\<close>
  "example_env =
     \<lparr>fromstring = example_fromstring, float_of = example_float, stack_room = 990\<rparr>"

definition shallow_env :: "int py_env" where
  \<comment> \<open>the same, for a call of \<open>parse\<close> made when the stack is almost full\<close>
  "shallow_env = example_env\<lparr>stack_room := 2\<rparr>"

definition example_gen_env :: "pystr \<Rightarrow> gen_env" where
  \<comment> \<open>the generator's environment at a clock reading; no example has a backslash in a
      tool id, so \<open>re_sub_escaped\<close> is never called\<close>
  "example_gen_env t = \<lparr>now = t, re_sub_escaped = (\<lambda>template subject. Inl ReError)\<rparr>"

definition parsed :: "pystr \<Rightarrow> int parser" where
  \<comment> \<open>the parser after a fresh parser has parsed the bytes\<close>
  "parsed b = fst (parse example_env init_parser b)"

section \<open>Auxiliary facts\<close>

lemma py_in_sublist: "py_in sub s = sublist sub s"
  by (induction s) (auto simp: sublist_Cons_right)

lemma has_key_iff: "has_key k d = (k \<in> fst ` set d)"
  by (simp add: has_key_def map_of_eq_None_iff)

lemma find_append_case:
  "List.find P (xs @ ys) = (case List.find P xs of None \<Rightarrow> List.find P ys | Some x \<Rightarrow> Some x)"
  by (induction xs) auto

lemma py_strip_nonempty: "py_strip s \<noteq> [] \<longleftrightarrow> (\<exists>ch\<in>set s. \<not> py_isspace ch)"
proof
  assume "py_strip s \<noteq> []"
  then show "\<exists>ch\<in>set s. \<not> py_isspace ch"
    by (auto simp: py_strip_def dest: set_dropWhileD)
next
  assume "\<exists>ch\<in>set s. \<not> py_isspace ch"
  then have ne: "dropWhile py_isspace s \<noteq> []"
    by (auto simp: dropWhile_eq_Nil_conv)
  then have "\<not> py_isspace (hd (dropWhile py_isspace s))"
    by (rule hd_dropWhile)
  with ne have "\<exists>x\<in>set (rev (dropWhile py_isspace s)). \<not> py_isspace x"
    by (metis hd_in_set set_rev)
  then have "dropWhile py_isspace (rev (dropWhile py_isspace s)) \<noteq> []"
    by (auto simp: dropWhile_eq_Nil_conv)
  then show "py_strip s \<noteq> []"
    by (simp add: py_strip_def)
qed

lemma text_test:
  "(case text_of child of None \<Rightarrow> False | Some s \<Rightarrow> s \<noteq> [] \<and> py_strip s \<noteq> [])
   \<longleftrightarrow> (\<exists>s. text_of child = Some s \<and> (\<exists>ch\<in>set s. \<not> py_isspace ch))"
  by (cases "text_of child") (auto simp: py_strip_nonempty)

lemma fold_err_cong:
  "(\<And>x acc. x \<in> set xs \<Longrightarrow> f x acc = g x acc) \<Longrightarrow> fold_err f xs acc = fold_err g xs acc"
  by (induction xs arbitrary: acc) (auto split: sum.splits)

lemma config_step:
  "(let key = (if ([] :: pystr) \<noteq> [] then [] @ tag child else tag child)
    in if children child \<noteq> []
       then (case recursive_config_extract room child [] [] of
               Inl e \<Rightarrow> Inl e
             | Inr sub_config \<Rightarrow> Inr (AList.update key (CDict sub_config) cfg))
       else if (case text_of child of None \<Rightarrow> False
                | Some s \<Rightarrow> s \<noteq> [] \<and> py_strip s \<noteq> [])
       then Inr (AList.update key (CStr (py_strip (the (text_of child)))) cfg)
       else if attrib child \<noteq> []
       then Inr (AList.update key (CDict (map (\<lambda>(k, v). (k, CStr v)) (attrib child))) cfg)
       else Inr (AList.update key CNone cfg))
   = (case config_entry room child of
        Inl e \<Rightarrow> Inl e
      | Inr v \<Rightarrow> Inr (AList.update (tag child) v cfg))"
  unfolding text_test config_entry_def leaf_value_def
  by (cases "children child = []";
      cases "\<exists>s. text_of child = Some s \<and> (\<exists>ch\<in>set s. \<not> py_isspace ch)";
      cases "attrib child = []") (auto simp: Let_def split: sum.splits)

lemma extract_fold_err:
  "recursive_config_extract (Suc room) e config [] =
     fold_err (\<lambda>child cfg. case config_entry room child of
                              Inl e \<Rightarrow> Inl e
                            | Inr v \<Rightarrow> Inr (AList.update (tag child) v cfg))
       (children e) config"
  unfolding recursive_config_extract.simps
  by (rule fold_err_cong) (rule config_step)

lemma fold_err_all_return:
  assumes "\<forall>c\<in>set cs. \<exists>v. g c = Inr v"
  shows "fold_err (\<lambda>c acc. case g c of Inl e \<Rightarrow> Inl e | Inr v \<Rightarrow> Inr (AList.update (f c) v acc))
           cs acc
         = Inr (fold (\<lambda>c acc. AList.update (f c) (projr (g c)) acc) cs acc)"
  using assms by (induction cs arbitrary: acc) auto

lemma fold_err_raises:
  assumes "\<forall>c\<in>set cs. g c = Inl err \<or> (\<exists>v. g c = Inr v)" and "\<exists>c\<in>set cs. g c = Inl err"
  shows "fold_err (\<lambda>c acc. case g c of Inl e \<Rightarrow> Inl e | Inr v \<Rightarrow> Inr (AList.update (f c) v acc))
           cs acc
         = Inl err"
  using assms
proof (induction cs arbitrary: acc)
  case Nil
  then show ?case by simp
next
  case (Cons c cs)
  show ?case
  proof (cases "g c")
    case (Inl e)
    with Cons.prems(1) have "e = err" by auto
    with Inl show ?thesis by simp
  next
    case (Inr v)
    with Cons.prems have "\<exists>c\<in>set cs. g c = Inl err" by auto
    with Cons.prems(1) Cons.IH Inr show ?thesis by simp
  qed
qed

lemma fold_max_le: "fold max xs (a::nat) \<le> n \<longleftrightarrow> a \<le> n \<and> (\<forall>x\<in>set xs. x \<le> n)"
  by (induction xs arbitrary: a) auto

lemma extract_depth_le:
  "extract_depth e \<le> Suc room \<longleftrightarrow>
     (\<forall>c\<in>set (children e). children c \<noteq> [] \<longrightarrow> extract_depth c \<le> room)"
  by (cases e) (auto simp: fold_max_le)

lemma extract_depth_pos: "0 < extract_depth e"
  by (cases e) simp

lemma map_of_fold_update:
  "map_of (fold (\<lambda>child cfg. AList.update (f child) (g child) cfg) cs config) k =
     (case List.find (\<lambda>c. f c = k) (rev cs) of
        None \<Rightarrow> map_of config k
      | Some c \<Rightarrow> Some (g c))"
proof (induction cs arbitrary: config)
  case Nil
  show ?case by simp
next
  case (Cons c cs)
  show ?case
    by (simp add: Cons.IH find_append_case update_conv' split: option.splits)
qed

lemma extract_returns:
  "(room < extract_depth e \<longrightarrow> recursive_config_extract room e [] [] = Inl RecursionError)
   \<and> (extract_depth e \<le> room \<longrightarrow> (\<exists>r. recursive_config_extract room e [] [] = Inr r))"
proof (induction room arbitrary: e)
  case 0
  show ?case using extract_depth_pos [of e] by simp
next
  case (Suc room)
  have entry: "config_entry room c = Inl RecursionError \<or> (\<exists>v. config_entry room c = Inr v)" for c
    using Suc.IH [of c] by (auto simp: config_entry_def split: sum.splits)
  show ?case
  proof (intro conjI impI)
    assume "Suc room < extract_depth e"
    then have "\<not> extract_depth e \<le> Suc room" by simp
    then obtain c where c: "c \<in> set (children e)" "children c \<noteq> []" "room < extract_depth c"
      unfolding extract_depth_le by auto
    with Suc.IH [of c] have "config_entry room c = Inl RecursionError"
      by (simp add: config_entry_def)
    with c(1) have "\<exists>c\<in>set (children e). config_entry room c = Inl RecursionError" by blast
    with entry show "recursive_config_extract (Suc room) e [] [] = Inl RecursionError"
      unfolding extract_fold_err by (intro fold_err_raises) auto
  next
    assume "extract_depth e \<le> Suc room"
    then have "\<forall>c\<in>set (children e). children c \<noteq> [] \<longrightarrow> extract_depth c \<le> room"
      unfolding extract_depth_le .
    with Suc.IH have "\<forall>c\<in>set (children e). \<exists>v. config_entry room c = Inr v"
      by (auto simp: config_entry_def split: sum.splits) (metis sum.distinct(1) sum.inject(1))+
    from fold_err_all_return [OF this]
    show "\<exists>r. recursive_config_extract (Suc room) e [] [] = Inr r"
      unfolding extract_fold_err by blast
  qed
qed

lemma tools_loop_fields:
  fixes st :: "'f parser"
  shows "tools (fst (extract_tools_loop env nodes st))
     = tools st @ tools (fst (extract_tools_loop env nodes init_parser))
   \<and> connections (fst (extract_tools_loop env nodes st)) = connections st
   \<and> metadata (fst (extract_tools_loop env nodes st)) = metadata st
   \<and> snd (extract_tools_loop env nodes st) = snd (extract_tools_loop env nodes init_parser)"
proof (induction nodes arbitrary: st)
  case Nil
  show ?case by (simp add: init_parser_def)
next
  case (Cons n ns)
  show ?case
  proof (cases "parse_tool_node env n")
    case (Inl e)
    then show ?thesis by (simp add: init_parser_def)
  next
    case (Inr r)
    show ?thesis
    proof (cases r)
      case None
      with Inr show ?thesis using Cons.IH [of st] by simp
    next
      case (Some t)
      define st1 where "st1 = st\<lparr>tools := tools st @ [t]\<rparr>"
      define i1 :: "'f parser" where "i1 = \<lparr>tools = [t], connections = [], metadata = []\<rparr>"
      from Inr Some have l: "extract_tools_loop env (n # ns) st = extract_tools_loop env ns st1"
        and r: "extract_tools_loop env (n # ns) init_parser = extract_tools_loop env ns i1"
        by (simp_all add: st1_def i1_def init_parser_def)
      have i: "tools i1 = [t]" and s: "tools st1 = tools st @ [t]"
        "connections st1 = connections st" "metadata st1 = metadata st"
        by (simp_all add: i1_def st1_def)
      from Cons.IH [of st1] Cons.IH [of i1] show ?thesis
        unfolding l r i s by simp
    qed
  qed
qed

lemma conns_loop_fields:
  fixes st :: "'f parser"
  shows "connections (extract_connections_loop cs st)
     = connections st @ connections (extract_connections_loop cs (init_parser :: 'f parser))
   \<and> tools (extract_connections_loop cs st) = tools st
   \<and> metadata (extract_connections_loop cs st) = metadata st"
proof (induction cs arbitrary: st)
  case Nil
  show ?case by (simp add: init_parser_def)
next
  case (Cons c cs)
  show ?case
  proof (cases "find_elem c ''Origin''")
    case None
    then show ?thesis using Cons.IH [of st] by simp
  next
    case so: (Some origin)
    show ?thesis
    proof (cases "find_elem c ''Destination''")
      case None
      with so show ?thesis using Cons.IH [of st] by simp
    next
      case (Some dest)
      let ?c = "\<lparr>conn_name = elem_get c ''name'' ''Output'',
                 conn_source = endpoint_text origin,
                 conn_destination = endpoint_text dest\<rparr>"
      define st1 where "st1 = st\<lparr>connections := connections st @ [?c]\<rparr>"
      define i1 :: "'f parser" where "i1 = \<lparr>tools = [], connections = [?c], metadata = []\<rparr>"
      from so Some have l: "extract_connections_loop (c # cs) st = extract_connections_loop cs st1"
        and r: "extract_connections_loop (c # cs) (init_parser :: 'f parser)
                  = extract_connections_loop cs i1"
        by (simp_all add: st1_def i1_def init_parser_def)
      have i: "connections i1 = [?c]" and s: "connections st1 = connections st @ [?c]"
        "tools st1 = tools st" "metadata st1 = metadata st"
        by (simp_all add: i1_def st1_def)
      from Cons.IH [of st1] Cons.IH [of i1] show ?thesis
        unfolding l r i s by simp
    qed
  qed
qed

lemma graph_ok_init_step:
  assumes "graph_ok N [] gd"
  shows "graph_ok (insert k N) [] (AList.update k [] (fst gd), AList.update k 0 (snd gd))"
  using assms
  by (auto simp: graph_ok_def distinct_update dom_update update_conv' nbrs_def indeg_def)

lemma graph_ok_init_fold:
  "graph_ok N [] gd \<Longrightarrow>
   graph_ok (N \<union> tool_id ` set ts) []
     (fold (\<lambda>t gd. (AList.update (tool_id t) [] (fst gd), AList.update (tool_id t) 0 (snd gd)))
        ts gd)"
proof (induction ts arbitrary: N gd)
  case Nil
  then show ?case by simp
next
  case (Cons t ts)
  from graph_ok_init_step [OF Cons.prems, of "tool_id t"]
  have "graph_ok (insert (tool_id t) N) []
          (AList.update (tool_id t) [] (fst gd), AList.update (tool_id t) 0 (snd gd))" .
  from Cons.IH [OF this] show ?case by simp
qed

lemma graph_ok_init: "graph_ok (tool_id ` set ts) [] (init_graph ts)"
proof -
  have "graph_ok {} [] ([], [])"
    by (simp add: graph_ok_def)
  from graph_ok_init_fold [OF this, of ts] show ?thesis
    by (simp add: init_graph_def)
qed

lemma graph_ok_add:
  assumes "graph_ok N E gd"
  shows "graph_ok N (E @ edge_of N c) (add_connection c gd)"
proof (cases "conn_source c \<in> N \<and> conn_destination c \<in> N")
  case False
  from assms have keys: "fst ` set (fst gd) = N"
    by (simp add: graph_ok_def)
  have "add_connection c gd = gd"
  proof (cases "map_of (fst gd) (conn_source c)")
    case None
    then show ?thesis by (simp add: add_connection_def Let_def)
  next
    case (Some ns)
    then have "conn_source c \<in> N"
      using keys by (metis map_of_eq_None_iff option.distinct(1))
    with False have "conn_destination c \<notin> fst ` set (fst gd)"
      using keys by simp
    then have "\<not> has_key (conn_destination c) (fst gd)"
      by (simp add: has_key_def map_of_eq_None_iff)
    with Some show ?thesis by (simp add: add_connection_def Let_def)
  qed
  moreover from False have "edge_of N c = []"
    by (simp add: edge_of_def)
  ultimately show ?thesis using assms by simp
next
  case True
  with assms have s: "map_of (fst gd) (conn_source c) = Some (nbrs E (conn_source c))"
    and d: "map_of (snd gd) (conn_destination c) = Some (int (indeg E {} (conn_destination c)))"
    and hk: "has_key (conn_destination c) (fst gd)"
    by (auto simp: graph_ok_def has_key_def map_of_eq_None_iff)
  from True s d hk have eq: "add_connection c gd =
      (AList.update (conn_source c) (nbrs E (conn_source c) @ [conn_destination c]) (fst gd),
       AList.update (conn_destination c) (int (indeg E {} (conn_destination c)) + 1) (snd gd))"
    by (simp add: add_connection_def Let_def dict_get_def)
  from True have e: "edge_of N c = [(conn_source c, conn_destination c)]"
    by (simp add: edge_of_def)
  show ?thesis
    unfolding eq e using assms True
    by (auto simp: graph_ok_def distinct_update dom_update update_conv' nbrs_def indeg_def)
qed

lemma graph_ok_fold:
  "graph_ok N E gd \<Longrightarrow>
   graph_ok N (E @ concat (map (edge_of N) conns)) (fold add_connection conns gd)"
proof (induction conns arbitrary: E gd)
  case Nil
  then show ?case by simp
next
  case (Cons c cs)
  from Cons.IH [OF graph_ok_add [OF Cons.prems, of c]] show ?case by simp
qed

lemma induced_edges_concat:
  "induced_edges ts conns = concat (map (edge_of (tool_id ` set ts)) conns)"
  by (induction conns) (auto simp: induced_edges_def edge_of_def)

lemma graph_ok_build:
  "graph_ok (tool_id ` set ts) (induced_edges ts conns) (build_graph ts conns)"
  using graph_ok_fold [OF graph_ok_init, of ts conns]
  by (simp add: build_graph_def induced_edges_concat)

lemma count_nbrs: "count_list (nbrs E v) t = length (filter (\<lambda>e. fst e = v \<and> snd e = t) E)"
  by (induction E) (auto simp: nbrs_def)

lemma indeg_split:
  "v \<notin> D \<Longrightarrow> indeg E D t = indeg E (insert v D) t + count_list (nbrs E v) t"
  by (induction E) (auto simp: indeg_def nbrs_def)

lemma indeg_zero_iff: "indeg E D t = 0 \<longleftrightarrow> (\<forall>e\<in>set E. snd e = t \<longrightarrow> fst e \<in> D)"
  by (auto simp: indeg_def filter_empty_conv)

lemma index_of_less: "x \<in> set xs \<Longrightarrow> index_of xs x < length xs"
  by (induction xs) auto

lemma index_of_append:
  "index_of (xs @ ys) x = (if x \<in> set xs then index_of xs x else length xs + index_of ys x)"
  by (induction xs) auto

lemma relax_spec:
  assumes "\<forall>t\<in>set ns. \<exists>k. map_of deg t = Some k \<and> int (count_list ns t) \<le> k"
  shows "\<exists>deg' new. relax ns deg queue = Inr (deg', queue @ new)
           \<and> (\<forall>t. map_of deg' t = map_option (\<lambda>k. k - int (count_list ns t)) (map_of deg t))
           \<and> distinct new
           \<and> set new = {t \<in> set ns. map_of deg t = Some (int (count_list ns t))}"
  using assms
proof (induction ns arbitrary: deg queue)
  case Nil
  show ?case
    by (simp add: option.map_ident)
next
  case (Cons n ns)
  from Cons.prems obtain k where k: "map_of deg n = Some k"
    and kc: "1 + int (count_list ns n) \<le> k"
    by auto
  let ?d = "AList.update n (k - 1) deg"
  let ?q = "if k - 1 = 0 then queue @ [n] else queue"
  have md: "map_of ?d = (map_of deg)(n \<mapsto> k - 1)"
    by (rule update_conv')
  have pre: "\<forall>t\<in>set ns. \<exists>k'. map_of ?d t = Some k' \<and> int (count_list ns t) \<le> k'"
  proof
    fix t assume t: "t \<in> set ns"
    show "\<exists>k'. map_of ?d t = Some k' \<and> int (count_list ns t) \<le> k'"
    proof (cases "t = n")
      case True
      with kc show ?thesis by (simp add: md)
    next
      case False
      with Cons.prems t show ?thesis by (auto simp: md)
    qed
  qed
  from Cons.IH [OF pre, of ?q] obtain deg' new1 where
    r: "relax ns ?d ?q = Inr (deg', ?q @ new1)"
    and m: "\<forall>t. map_of deg' t = map_option (\<lambda>k. k - int (count_list ns t)) (map_of ?d t)"
    and dn: "distinct new1"
    and sn: "set new1 = {t \<in> set ns. map_of ?d t = Some (int (count_list ns t))}"
    by blast
  let ?new = "(if k - 1 = 0 then [n] else []) @ new1"
  have 1: "relax (n # ns) deg queue = Inr (deg', queue @ ?new)"
    using k r by simp
  have 2: "\<forall>t. map_of deg' t = map_option (\<lambda>k. k - int (count_list (n # ns) t)) (map_of deg t)"
    using m k by (auto simp: md)
  have 3: "distinct ?new"
  proof (cases "k - 1 = 0")
    case True
    with kc have "count_list ns n = 0" by simp
    then have "n \<notin> set ns" by (simp add: count_list_0_iff)
    with sn have "n \<notin> set new1" by simp
    with dn True show ?thesis by simp
  next
    case False
    with dn show ?thesis by simp
  qed
  have 4: "set ?new = {t \<in> set (n # ns). map_of deg t = Some (int (count_list (n # ns) t))}"
  proof (rule set_eqI)
    fix t
    show "t \<in> set ?new \<longleftrightarrow>
          t \<in> {t \<in> set (n # ns). map_of deg t = Some (int (count_list (n # ns) t))}"
    proof (cases "t = n")
      case True
      show ?thesis
      proof (cases "k - 1 = 0")
        case z: True
        with kc have "count_list ns n = 0" by simp
        with z True k show ?thesis by simp
      next
        case nz: False
        have imp: "n \<in> set ns" if "k - 1 = int (count_list ns n)"
        proof (rule ccontr)
          assume "n \<notin> set ns"
          then have "count_list ns n = 0" by (simp add: count_list_0_iff)
          with that nz show False by simp
        qed
        have "map_of ?d n = Some (k - 1)"
          by (simp add: md)
        with sn nz have L: "n \<in> set ?new \<longleftrightarrow> n \<in> set ns \<and> k - 1 = int (count_list ns n)"
          by simp
        have R: "n \<in> {t \<in> set (n # ns). map_of deg t = Some (int (count_list (n # ns) t))}
                 \<longleftrightarrow> k = int (count_list ns n) + 1"
          using k by auto
        have "(n \<in> set ns \<and> k - 1 = int (count_list ns n)) \<longleftrightarrow> k = int (count_list ns n) + 1"
          using imp by auto
        with L R True show ?thesis by simp
      qed
    next
      case False
      then have "map_of ?d t = map_of deg t"
        by (simp add: md)
      with sn False show ?thesis by simp
    qed
  qed
  show ?case
    by (rule exI [of _ deg'], rule exI [of _ ?new]) (use 1 2 3 4 in blast)
qed

lemma kahn_step:
  assumes inv: "kahn_inv N E g deg (v # q) res"
  shows "\<exists>deg' q'. relax (dict_get g v []) deg q = Inr (deg', q')
           \<and> kahn_inv N E g deg' q' (res @ [v])"
proof -
  from inv have gN: "\<forall>u\<in>N. dict_get g u [] = nbrs E u"
    and EN: "set E \<subseteq> N \<times> N"
    and dist: "distinct (res @ v # q)"
    and sub: "set (res @ v # q) \<subseteq> N"
    and dg: "\<forall>t\<in>N. map_of deg t = Some (int (indeg E (set res) t))"
    and zero: "\<forall>t\<in>N. t \<in> set (res @ v # q) \<longleftrightarrow> indeg E (set res) t = 0"
    and topo: "\<forall>e\<in>set E. snd e \<in> set res \<longrightarrow>
                 fst e \<in> set res \<and> index_of res (fst e) < index_of res (snd e)"
    unfolding kahn_inv_def by blast+
  from sub have vN: "v \<in> N" by simp
  from dist have vres: "v \<notin> set res" by simp
  let ?ns = "nbrs E v"
  have nsN: "set ?ns \<subseteq> N"
    using EN by (auto simp: nbrs_def)
  have split: "indeg E (set res) t = indeg E (insert v (set res)) t + count_list ?ns t" for t
    by (rule indeg_split [OF vres])
  have pre: "\<forall>t\<in>set ?ns. \<exists>k. map_of deg t = Some k \<and> int (count_list ?ns t) \<le> k"
  proof
    fix t assume "t \<in> set ?ns"
    with nsN have "t \<in> N" by auto
    with dg have "map_of deg t = Some (int (indeg E (set res) t))" by simp
    moreover have "count_list ?ns t \<le> indeg E (set res) t"
      using split [of t] by simp
    ultimately show "\<exists>k. map_of deg t = Some k \<and> int (count_list ?ns t) \<le> k" by simp
  qed
  from relax_spec [OF pre, of q] obtain deg' new where
    r: "relax ?ns deg q = Inr (deg', q @ new)"
    and m: "\<forall>t. map_of deg' t = map_option (\<lambda>k. k - int (count_list ?ns t)) (map_of deg t)"
    and dn: "distinct new"
    and sn: "set new = {t \<in> set ?ns. map_of deg t = Some (int (count_list ?ns t))}"
    by blast
  have gv: "dict_get g v [] = ?ns"
    using gN vN by simp
  have dg': "\<forall>t\<in>N. map_of deg' t = Some (int (indeg E (set (res @ [v])) t))"
  proof
    fix t assume "t \<in> N"
    with dg m have "map_of deg' t = Some (int (indeg E (set res) t) - int (count_list ?ns t))"
      by simp
    with split [of t] show "map_of deg' t = Some (int (indeg E (set (res @ [v])) t))"
      by simp
  qed
  have sn': "set new = {t \<in> set ?ns. indeg E (insert v (set res)) t = 0}"
  proof -
    have "(map_of deg t = Some (int (count_list ?ns t))) \<longleftrightarrow> indeg E (insert v (set res)) t = 0"
      if "t \<in> set ?ns" for t
    proof -
      from that nsN have "t \<in> N" by auto
      with dg have "map_of deg t = Some (int (indeg E (set res) t))" by simp
      with split [of t] show ?thesis by simp
    qed
    with sn show ?thesis by blast
  qed
  have newN: "set new \<subseteq> N"
    using sn' nsN by blast
  have new_pos: "indeg E (set res) t \<noteq> 0" if "t \<in> set new" for t
  proof -
    from that sn' have "t \<in> set ?ns" by simp
    then have "count_list ?ns t \<noteq> 0" by (simp add: count_list_0_iff)
    with split [of t] show ?thesis by simp
  qed
  have disj: "set new \<inter> set (res @ v # q) = {}"
    using new_pos zero newN by blast
  have dist': "distinct ((res @ [v]) @ (q @ new))"
    using dist dn disj by auto
  have sub': "set ((res @ [v]) @ (q @ new)) \<subseteq> N"
    using sub newN by auto
  have zero': "\<forall>t\<in>N. t \<in> set ((res @ [v]) @ (q @ new)) \<longleftrightarrow> indeg E (set (res @ [v])) t = 0"
  proof
    fix t assume tN: "t \<in> N"
    show "t \<in> set ((res @ [v]) @ (q @ new)) \<longleftrightarrow> indeg E (set (res @ [v])) t = 0"
    proof
      assume "t \<in> set ((res @ [v]) @ (q @ new))"
      then consider "t \<in> set (res @ v # q)" | "t \<in> set new" by auto
      then show "indeg E (set (res @ [v])) t = 0"
      proof cases
        case 1
        with zero tN have "indeg E (set res) t = 0" by simp
        with split [of t] show ?thesis by simp
      next
        case 2
        with sn' show ?thesis by simp
      qed
    next
      assume z: "indeg E (set (res @ [v])) t = 0"
      show "t \<in> set ((res @ [v]) @ (q @ new))"
      proof (cases "t \<in> set ?ns")
        case True
        with sn' z have "t \<in> set new" by simp
        then show ?thesis by simp
      next
        case False
        then have "count_list ?ns t = 0" by (simp add: count_list_0_iff)
        with split [of t] z have "indeg E (set res) t = 0" by simp
        with zero tN have "t \<in> set (res @ v # q)" by simp
        then show ?thesis by auto
      qed
    qed
  qed
  have topo': "\<forall>e\<in>set E. snd e \<in> set (res @ [v]) \<longrightarrow>
                 fst e \<in> set (res @ [v])
                 \<and> index_of (res @ [v]) (fst e) < index_of (res @ [v]) (snd e)"
  proof (intro ballI impI)
    fix e assume e: "e \<in> set E" and se: "snd e \<in> set (res @ [v])"
    show "fst e \<in> set (res @ [v])
          \<and> index_of (res @ [v]) (fst e) < index_of (res @ [v]) (snd e)"
    proof (cases "snd e \<in> set res")
      case True
      with topo e have "fst e \<in> set res" and "index_of res (fst e) < index_of res (snd e)"
        by blast+
      with True show ?thesis by (simp add: index_of_append)
    next
      case False
      with se have sv: "snd e = v" by simp
      from zero vN have "indeg E (set res) v = 0" by auto
      with e sv have a: "fst e \<in> set res" by (auto simp: indeg_zero_iff)
      then have "index_of res (fst e) < length res" by (rule index_of_less)
      with a sv vres show ?thesis by (simp add: index_of_append)
    qed
  qed
  have "kahn_inv N E g deg' (q @ new) (res @ [v])"
    unfolding kahn_inv_def using gN EN dist' sub' dg' zero' topo' by blast
  with r gv show ?thesis by auto
qed

lemma kahn_loop_inv:
  "kahn_inv N E g deg queue res \<Longrightarrow>
   \<exists>order deg'. kahn_loop g deg queue res = Inr order \<and> kahn_inv N E g deg' [] order"
proof (induction g deg queue res rule: kahn_loop.induct)
  case (1 g deg queue result)
  show ?case
  proof (cases queue)
    case Nil
    with "1.prems" show ?thesis by auto
  next
    case (Cons v q)
    from kahn_step [OF "1.prems" [unfolded Cons]] obtain deg' q' where
      r: "relax (dict_get g v []) deg q = Inr (deg', q')"
      and inv': "kahn_inv N E g deg' q' (result @ [v])"
      by blast
    from "1.IH" [OF Cons r refl inv'] obtain order deg'' where
      "kahn_loop g deg' q' (result @ [v]) = Inr order" and "kahn_inv N E g deg'' [] order"
      by blast
    with Cons r show ?thesis by auto
  qed
qed

lemma kahn_inv_init:
  assumes ok: "graph_ok N E (g, deg)" and EN: "set E \<subseteq> N \<times> N"
  shows "kahn_inv N E g deg (map fst (filter (\<lambda>kv. snd kv = 0) deg)) []"
proof -
  from ok have dk: "distinct (map fst deg)" and kd: "fst ` set deg = N"
    and mg: "\<forall>v\<in>N. map_of g v = Some (nbrs E v)"
    and md: "\<forall>v\<in>N. map_of deg v = Some (int (indeg E {} v))"
    by (simp_all add: graph_ok_def)
  have 1: "\<forall>v\<in>N. dict_get g v [] = nbrs E v"
    using mg by (simp add: dict_get_def)
  have 2: "distinct (map fst (filter (\<lambda>kv. snd kv = 0) deg))"
    using dk by (rule distinct_map_filter)
  have 3: "set (map fst (filter (\<lambda>kv. snd kv = 0) deg)) \<subseteq> N"
    using kd by auto
  have 4: "\<forall>t\<in>N. t \<in> set (map fst (filter (\<lambda>kv. snd kv = 0) deg)) \<longleftrightarrow> indeg E {} t = 0"
  proof
    fix t assume "t \<in> N"
    with md have m: "map_of deg t = Some (int (indeg E {} t))" by simp
    have "t \<in> set (map fst (filter (\<lambda>kv. snd kv = 0) deg)) \<longleftrightarrow> (t, 0) \<in> set deg"
      by force
    also have "\<dots> \<longleftrightarrow> map_of deg t = Some 0"
      using dk by simp
    also have "\<dots> \<longleftrightarrow> indeg E {} t = 0"
      using m by simp
    finally show "t \<in> set (map fst (filter (\<lambda>kv. snd kv = 0) deg)) \<longleftrightarrow> indeg E {} t = 0" .
  qed
  show ?thesis
    unfolding kahn_inv_def using 1 2 3 4 EN md by simp
qed

lemma induced_edges_sub: "set (induced_edges ts conns) \<subseteq> tool_id ` set ts \<times> tool_id ` set ts"
  by (auto simp: induced_edges_def)

lemma execution_order_inv:
  "\<exists>order deg'. get_execution_order ts conns = Inr order
     \<and> kahn_inv (tool_id ` set ts) (induced_edges ts conns) (fst (build_graph ts conns)) deg' [] order"
proof -
  obtain g deg where gd: "build_graph ts conns = (g, deg)"
    by (cases "build_graph ts conns")
  from graph_ok_build [of ts conns] gd
  have "graph_ok (tool_id ` set ts) (induced_edges ts conns) (g, deg)" by simp
  from kahn_loop_inv [OF kahn_inv_init [OF this induced_edges_sub]] gd
  show ?thesis by (simp add: get_execution_order_def)
qed

lemma unscheduled_cycle:
  assumes fin: "finite N" and EN: "set E \<subseteq> N \<times> N" and sub: "S \<subseteq> N"
    and zero: "\<forall>t\<in>N. t \<in> S \<longleftrightarrow> indeg E S t = 0"
    and acyc: "acyclic (set E)"
  shows "S = N"
proof (rule ccontr)
  assume "S \<noteq> N"
  with sub obtain x where x: "x \<in> N - S" by blast
  from acyc have "wf (set E)"
    by (simp add: finite_acyclic_wf)
  from wfE_min [OF this x] obtain z where z: "z \<in> N - S"
    and zmin: "\<And>y. (y, z) \<in> set E \<Longrightarrow> y \<notin> N - S"
    by blast
  from z zero have "indeg E S z \<noteq> 0" by blast
  then obtain e where e: "e \<in> set E" "snd e = z" "fst e \<notin> S"
    by (auto simp: indeg_zero_iff)
  with EN have "fst e \<in> N" by auto
  moreover from e have "(fst e, z) \<in> set E" by (metis prod.collapse)
  ultimately show False using zmin e(3) by blast
qed

lemma ancestors_scheduled:
  assumes topo: "\<forall>e\<in>set E. snd e \<in> set order \<longrightarrow>
                   fst e \<in> set order \<and> index_of order (fst e) < index_of order (snd e)"
    and path: "(x, y) \<in> (set E)\<^sup>+" and y: "y \<in> set order"
  shows "x \<in> set order \<and> index_of order x < index_of order y"
  using path
proof (induction rule: converse_trancl_induct)
  case (base x)
  with topo y show ?case by force
next
  case (step x z)
  from step.IH have "z \<in> set order" by simp
  with topo step.hyps(1) have "x \<in> set order \<and> index_of order x < index_of order z" by force
  with step.IH show ?case by simp
qed

lemma scheduled_iff_no_cycle:
  assumes fin: "finite N" and EN: "set E \<subseteq> N \<times> N" and sub: "set order \<subseteq> N"
    and zero: "\<forall>t\<in>N. t \<in> set order \<longleftrightarrow> indeg E (set order) t = 0"
    and topo: "\<forall>e\<in>set E. snd e \<in> set order \<longrightarrow>
                   fst e \<in> set order \<and> index_of order (fst e) < index_of order (snd e)"
    and tN: "t \<in> N"
  shows "t \<in> set order \<longleftrightarrow> \<not> (\<exists>c. (c, c) \<in> (set E)\<^sup>+ \<and> (c, t) \<in> (set E)\<^sup>*)"
proof
  assume t: "t \<in> set order"
  show "\<not> (\<exists>c. (c, c) \<in> (set E)\<^sup>+ \<and> (c, t) \<in> (set E)\<^sup>*)"
  proof
    assume "\<exists>c. (c, c) \<in> (set E)\<^sup>+ \<and> (c, t) \<in> (set E)\<^sup>*"
    then obtain c where cc: "(c, c) \<in> (set E)\<^sup>+" and ct: "(c, t) \<in> (set E)\<^sup>*" by blast
    from ct have "c = t \<or> (c, t) \<in> (set E)\<^sup>+"
      by (auto simp: rtrancl_eq_or_trancl)
    with t ancestors_scheduled [OF topo _ t] have "c \<in> set order" by blast
    from ancestors_scheduled [OF topo cc this] show False by simp
  qed
next
  assume nc: "\<not> (\<exists>c. (c, c) \<in> (set E)\<^sup>+ \<and> (c, t) \<in> (set E)\<^sup>*)"
  show "t \<in> set order"
  proof (rule ccontr)
    assume tn: "t \<notin> set order"
    define A where "A = {x. (x, t) \<in> (set E)\<^sup>* \<and> x \<notin> set order}"
    define R where "R = set E \<inter> A \<times> A"
    have AN: "A \<subseteq> N"
    proof
      fix x assume "x \<in> A"
      then have "(x, t) \<in> (set E)\<^sup>*" by (simp add: A_def)
      then have "x = t \<or> (\<exists>y. (x, y) \<in> set E)"
        by (metis converse_rtranclE)
      with EN tN show "x \<in> N" by auto
    qed
    have tA: "t \<in> A" using tn by (simp add: A_def)
    have pred: "\<exists>y\<in>A. (y, z) \<in> R" if "z \<in> A" for z
    proof -
      from that AN have "z \<in> N" and zn: "z \<notin> set order" and zt: "(z, t) \<in> (set E)\<^sup>*"
        by (auto simp: A_def)
      with zero have "indeg E (set order) z \<noteq> 0" by blast
      then obtain e where e: "e \<in> set E" "snd e = z" "fst e \<notin> set order"
        by (auto simp: indeg_zero_iff)
      then have ez: "(fst e, z) \<in> set E" by (metis prod.collapse)
      with zt have "(fst e, t) \<in> (set E)\<^sup>*" by (meson converse_rtrancl_into_rtrancl)
      with e(3) have "fst e \<in> A" by (simp add: A_def)
      with ez that show ?thesis by (auto simp: R_def)
    qed
    have "\<not> acyclic R"
    proof
      assume "acyclic R"
      moreover have "finite R" by (simp add: R_def)
      ultimately have "wf R" by (simp add: finite_acyclic_wf)
      from wfE_min [OF this tA] obtain z where "z \<in> A" and "\<And>y. (y, z) \<in> R \<Longrightarrow> y \<notin> A"
        by blast
      with pred show False by blast
    qed
    then obtain c where c: "(c, c) \<in> R\<^sup>+"
      by (auto simp: acyclic_def)
    have "R \<subseteq> set E" by (simp add: R_def)
    then have "(c, c) \<in> (set E)\<^sup>+"
      using c trancl_mono by blast
    moreover from c obtain y where "(c, y) \<in> R"
      by (meson tranclD)
    then have "c \<in> A" by (simp add: R_def)
    then have "(c, t) \<in> (set E)\<^sup>*" by (simp add: A_def)
    ultimately show False using nc by blast
  qed
qed

lemma py_join_cons: "rest \<noteq> [] \<Longrightarrow> py_join sep (x # rest) = x @ sep @ py_join sep rest"
  by (cases rest) simp_all

lemma convert_now:
  "convert_expression_to_pandas (env\<lparr>now := t\<rparr>) expr var = convert_expression_to_pandas env expr var"
  by (cases expr) (simp_all add: convert_expression_to_pandas_def cong: if_cong)

lemma filter_now: "generate_filter (env\<lparr>now := t\<rparr>) p tool var gen = generate_filter env p tool var gen"
  unfolding generate_filter_def convert_now by (rule refl)

lemma formula_now:
  "generate_formula (env\<lparr>now := t\<rparr>) p tool var gen = generate_formula env p tool var gen"
  unfolding generate_formula_def convert_now by (rule refl)

lemma tool_code_now:
  "generate_tool_code (env\<lparr>now := t\<rparr>) p tool gen = generate_tool_code env p tool gen"
  unfolding generate_tool_code_def filter_now formula_now by (rule refl)

lemma loop_now:
  "generate_loop (env\<lparr>now := t\<rparr>) p order ls gen = generate_loop env p order ls gen"
  by (induction order arbitrary: ls gen)
    (simp_all add: tool_code_now split: option.splits sum.splits prod.splits)

lemma loop_prefix:
  "generate_loop env p order (pre @ ls) gen =
     (case generate_loop env p order ls gen of
        Inl e \<Rightarrow> Inl e
      | Inr r \<Rightarrow> Inr (pre @ fst r, snd r))"
proof (induction order arbitrary: ls gen)
  case Nil
  show ?case by simp
next
  case (Cons tid rest)
  show ?case
  proof (cases "get_tool_by_id (tools p) tid")
    case None
    then show ?thesis by (simp add: Cons.IH)
  next
    case (Some tool)
    show ?thesis
    proof (cases "generate_tool_code env p tool gen")
      case (Inl e)
      with Some show ?thesis by simp
    next
      case (Inr r)
      obtain tool_code gen' where r: "r = (tool_code, gen')" by (cases r)
      from Some Inr r show ?thesis
        by (simp add: Cons.IH)
    qed
  qed
qed

lemma parsed_chain:
  "parse example_env init_parser chain_bytes = (parsed chain_bytes, True)"
  unfolding parsed_def by code_simp

lemma parsed_chain_tools: "map tool_id (tools (parsed chain_bytes)) = [''1'', ''2'', ''3'']"
  unfolding parsed_def by code_simp

lemma parsed_chain_conns:
  "map (\<lambda>c. (conn_source c, conn_destination c)) (connections (parsed chain_bytes))
     = [(''1'', ''2''), (''2'', ''3'')]"
  unfolding parsed_def by code_simp

lemma chain_order:
  "get_execution_order (tools (parsed chain_bytes)) (connections (parsed chain_bytes))
     = Inr [''1'', ''2'', ''3'']"
  unfolding parsed_def by code_simp

section \<open>The properties\<close>

text \<open>
  Claim C1, amended. Two runs of \<open>generate\<close> from the same generator state over the same
  parser differ at most in the clock reading printed in the third line of the header:
  either every run raises the same exception, or every run returns the same generator
  state and a text that is the first two header lines, \<open>Generated: \<close> with the clock
  reading of that run, and a remainder that is the same for all clock readings.
\<close>

theorem generate_deterministic_up_to_clock:
  "\<exists>r. \<forall>t. generate (env\<lparr>now := t\<rparr>) p gen =
     (case r of
        Inl e \<Rightarrow> Inl e
      | Inr (rest, gen') \<Rightarrow>
          Inr (dq @ dq @ dq @ newline
               @ ''Auto-generated Python script from Alteryx workflow'' @ newline
               @ ''Generated: '' @ t @ newline @ rest, gen'))"
proof (cases "get_execution_order (tools p) (connections p)")
  case (Inl e)
  then have "\<forall>t. generate (env\<lparr>now := t\<rparr>) p gen = (case Inl e of Inl e \<Rightarrow> Inl e
      | Inr (rest, gen') \<Rightarrow>
          Inr (dq @ dq @ dq @ newline
               @ ''Auto-generated Python script from Alteryx workflow'' @ newline
               @ ''Generated: '' @ t @ newline @ rest, gen'))"
    by (simp add: generate_def)
  then show ?thesis by blast
next
  case (Inr order)
  let ?tl = "[dq @ dq @ dq, []]
      @ map (\<lambda>imp. ''import '' @ imp) (sorted_list_of_set (imports_set gen))
      @ [[], ''def main():'',
         ''    '' @ dq @ dq @ dq @ ''Main workflow execution function'' @ dq @ dq @ dq,
         ''    '']"
  let ?end = "[''    return True'', [], [],
              ''if __name__ == '' @ sq @ ''__main__'' @ sq @ '':'', ''    main()'']"
  have hdr: "generate_header (env\<lparr>now := t\<rparr>) gen
               @ [[], ''def main():'',
                  ''    '' @ dq @ dq @ dq @ ''Main workflow execution function'' @ dq @ dq @ dq,
                  ''    '']
             = [dq @ dq @ dq, ''Auto-generated Python script from Alteryx workflow'',
                ''Generated: '' @ t] @ ?tl" for t
    by (simp add: generate_header_def)
  show ?thesis
  proof (cases "generate_loop env p order ?tl gen")
    case (Inl e)
    have "\<forall>t. generate (env\<lparr>now := t\<rparr>) p gen = (case Inl e of Inl e \<Rightarrow> Inl e
      | Inr (rest, gen') \<Rightarrow>
          Inr (dq @ dq @ dq @ newline
               @ ''Auto-generated Python script from Alteryx workflow'' @ newline
               @ ''Generated: '' @ t @ newline @ rest, gen'))"
      using Inr Inl by (simp add: generate_def Let_def hdr loop_now loop_prefix del: append.simps)
    then show ?thesis by blast
  next
    case r: (Inr res)
    obtain ls gen' where res: "res = (ls, gen')" by (cases res)
    have j: "py_join newline
               ([dq @ dq @ dq, ''Auto-generated Python script from Alteryx workflow'',
                 ''Generated: '' @ t] @ ls @ ?end)
             = dq @ dq @ dq @ newline
               @ ''Auto-generated Python script from Alteryx workflow'' @ newline
               @ ''Generated: '' @ t @ newline @ py_join newline (ls @ ?end)" for t
      by (simp add: py_join_cons)
    have "\<forall>t. generate (env\<lparr>now := t\<rparr>) p gen =
      (case Inr (py_join newline (ls @ ?end), gen') of Inl e \<Rightarrow> Inl e
      | Inr (rest, gen') \<Rightarrow>
          Inr (dq @ dq @ dq @ newline
               @ ''Auto-generated Python script from Alteryx workflow'' @ newline
               @ ''Generated: '' @ t @ newline @ rest, gen'))"
      using Inr r res j
      by (simp add: generate_def Let_def hdr loop_now loop_prefix del: append.simps)
    then show ?thesis by blast
  qed
qed

theorem generate_deterministic_up_to_clock_witness:
  "\<exists>rest gen'.
     generate (example_gen_env ''2024-01-01 00:00:00'') (parsed chain_bytes) init_generator =
       Inr (dq @ dq @ dq @ newline
            @ ''Auto-generated Python script from Alteryx workflow'' @ newline
            @ ''Generated: 2024-01-01 00:00:00'' @ newline @ rest, gen')
     \<and> generate (example_gen_env ''2025-06-30 12:30:00'') (parsed chain_bytes) init_generator =
       Inr (dq @ dq @ dq @ newline
            @ ''Auto-generated Python script from Alteryx workflow'' @ newline
            @ ''Generated: 2025-06-30 12:30:00'' @ newline @ rest, gen')"
proof -
  have env: "(example_gen_env [])\<lparr>now := t\<rparr> = example_gen_env t" for t
    by (simp add: example_gen_env_def)
  from generate_deterministic_up_to_clock [of "example_gen_env []" "parsed chain_bytes" init_generator]
  obtain r where r: "\<forall>t. generate (example_gen_env t) (parsed chain_bytes) init_generator =
     (case r of
        Inl e \<Rightarrow> Inl e
      | Inr (rest, gen') \<Rightarrow>
          Inr (dq @ dq @ dq @ newline
               @ ''Auto-generated Python script from Alteryx workflow'' @ newline
               @ ''Generated: '' @ t @ newline @ rest, gen'))"
    unfolding env by blast
  have "\<not> isl (generate (example_gen_env []) (parsed chain_bytes) init_generator)"
    unfolding parsed_def by code_simp
  with r have "\<not> isl r"
    by (cases r) simp_all
  then obtain rest gen' where "r = Inr (rest, gen')"
    by (cases r) auto
  with r show ?thesis by simp
qed

theorem generate_clock_counterexample:
  "generate (example_gen_env ''2024-01-01 00:00:00'') (init_parser :: int parser) init_generator
     \<noteq> generate (example_gen_env ''2024-01-01 00:00:01'') (init_parser :: int parser) init_generator"
  by code_simp

text \<open>
  Claim C2. For every list of tools and of connections, \<open>get_execution_order\<close> returns
  a sequence without repetition such that every connection whose source and destination
  are tool ids and both occur in the sequence has its source at a strictly smaller index
  than its destination.
\<close>

theorem execution_order_topological:
  "\<exists>order. get_execution_order ts conns = Inr order \<and> distinct order
     \<and> (\<forall>c\<in>set conns.
           conn_source c \<in> tool_id ` set ts \<and> conn_destination c \<in> tool_id ` set ts
           \<and> conn_source c \<in> set order \<and> conn_destination c \<in> set order
           \<longrightarrow> index_of order (conn_source c) < index_of order (conn_destination c))"
proof -
  from execution_order_inv [of ts conns] obtain order deg' where
    o: "get_execution_order ts conns = Inr order"
    and inv: "kahn_inv (tool_id ` set ts) (induced_edges ts conns)
                (fst (build_graph ts conns)) deg' [] order"
    by blast
  from inv have d: "distinct order"
    and topo: "\<forall>e\<in>set (induced_edges ts conns). snd e \<in> set order \<longrightarrow>
                 index_of order (fst e) < index_of order (snd e)"
    unfolding kahn_inv_def by simp_all
  have "index_of order (conn_source c) < index_of order (conn_destination c)"
    if "c \<in> set conns" and "conn_source c \<in> tool_id ` set ts"
      and "conn_destination c \<in> tool_id ` set ts" and "conn_destination c \<in> set order" for c
  proof -
    from that have "(conn_source c, conn_destination c) \<in> set (induced_edges ts conns)"
      by (force simp: induced_edges_def)
    with topo that(4) show ?thesis by force
  qed
  with o d show ?thesis by blast
qed

theorem execution_order_topological_witness:
  "get_execution_order (tools (parsed chain_bytes)) (connections (parsed chain_bytes))
     = Inr [''1'', ''2'', ''3'']
   \<and> index_of [''1'', ''2'', ''3''] ''1'' < index_of [''1'', ''2'', ''3''] ''2''
   \<and> index_of [''1'', ''2'', ''3''] ''2'' < index_of [''1'', ''2'', ''3''] ''3''"
proof -
  have ids: "tool_id ` set (tools (parsed chain_bytes)) = {''1'', ''2'', ''3''}"
    using parsed_chain_tools by (metis list.set_map list.simps(15) empty_set)
  have "(''1'', ''2'') \<in> set (map (\<lambda>c. (conn_source c, conn_destination c))
                                (connections (parsed chain_bytes)))"
    and "(''2'', ''3'') \<in> set (map (\<lambda>c. (conn_source c, conn_destination c))
                                (connections (parsed chain_bytes)))"
    unfolding parsed_chain_conns by simp_all
  then obtain c1 c2 where c1: "c1 \<in> set (connections (parsed chain_bytes))"
    "conn_source c1 = ''1''" "conn_destination c1 = ''2''"
    and c2: "c2 \<in> set (connections (parsed chain_bytes))"
    "conn_source c2 = ''2''" "conn_destination c2 = ''3''"
    by auto
  from execution_order_topological [of "tools (parsed chain_bytes)" "connections (parsed chain_bytes)"]
  have all: "\<forall>c\<in>set (connections (parsed chain_bytes)).
           conn_source c \<in> {''1'', ''2'', ''3''} \<and> conn_destination c \<in> {''1'', ''2'', ''3''}
           \<and> conn_source c \<in> set [''1'', ''2'', ''3'']
           \<and> conn_destination c \<in> set [''1'', ''2'', ''3'']
           \<longrightarrow> index_of [''1'', ''2'', ''3''] (conn_source c)
                 < index_of [''1'', ''2'', ''3''] (conn_destination c)"
    unfolding chain_order ids by blast
  from all c1 have "index_of [''1'', ''2'', ''3''] ''1'' < index_of [''1'', ''2'', ''3''] ''2''"
    by fastforce
  moreover from all c2
  have "index_of [''1'', ''2'', ''3''] ''2'' < index_of [''1'', ''2'', ''3''] ''3''"
    by fastforce
  ultimately show ?thesis using chain_order by blast
qed

text \<open>
  Claim C3, amended. For every list of tools and of connections, the sequence that
  \<open>get_execution_order\<close> returns is at most as long as the list of tools, and exactly
  as long if and only if the tool ids are pairwise distinct and the subgraph induced on
  the tool ids is acyclic. When a cycle exists the call still returns, without raising,
  and what it returns is the partial order: tool ids only, none twice, a tool id being in
  the sequence exactly when the sources of all its induced connections are, which are
  exactly the tool ids that no node on a cycle reaches.
\<close>

theorem execution_order_length:
  "\<exists>order. get_execution_order ts conns = Inr order \<and> length order \<le> length ts
     \<and> (length order = length ts
          \<longleftrightarrow> distinct (map tool_id ts) \<and> acyclic (set (induced_edges ts conns)))
     \<and> distinct order \<and> set order \<subseteq> tool_id ` set ts
     \<and> (\<forall>t\<in>tool_id ` set ts.
           t \<in> set order
           \<longleftrightarrow> (\<forall>e\<in>set (induced_edges ts conns). snd e = t \<longrightarrow> fst e \<in> set order))
     \<and> (\<forall>t\<in>tool_id ` set ts.
           t \<in> set order
           \<longleftrightarrow> \<not> (\<exists>c. (c, c) \<in> (set (induced_edges ts conns))\<^sup>+
                      \<and> (c, t) \<in> (set (induced_edges ts conns))\<^sup>*))"
proof -
  let ?N = "tool_id ` set ts" and ?E = "induced_edges ts conns"
  from execution_order_inv [of ts conns] obtain order deg' where
    o: "get_execution_order ts conns = Inr order"
    and inv: "kahn_inv ?N ?E (fst (build_graph ts conns)) deg' [] order"
    by blast
  from inv have EN: "set ?E \<subseteq> ?N \<times> ?N" and d: "distinct order" and sub: "set order \<subseteq> ?N"
    and zero: "\<forall>t\<in>?N. t \<in> set order \<longleftrightarrow> indeg ?E (set order) t = 0"
    and topo': "\<forall>e\<in>set ?E. snd e \<in> set order \<longrightarrow>
                 fst e \<in> set order \<and> index_of order (fst e) < index_of order (snd e)"
    unfolding kahn_inv_def by simp_all
  from topo' have topo: "\<forall>e\<in>set ?E. snd e \<in> set order \<longrightarrow>
                 index_of order (fst e) < index_of order (snd e)"
    by blast
  have fin: "finite ?N" by simp
  have preds: "\<forall>t\<in>?N. t \<in> set order \<longleftrightarrow> (\<forall>e\<in>set ?E. snd e = t \<longrightarrow> fst e \<in> set order)"
    using zero by (simp add: indeg_zero_iff)
  have cyc: "\<forall>t\<in>?N. t \<in> set order
               \<longleftrightarrow> \<not> (\<exists>c. (c, c) \<in> (set ?E)\<^sup>+ \<and> (c, t) \<in> (set ?E)\<^sup>*)"
    using scheduled_iff_no_cycle [OF fin EN sub zero topo'] by blast
  have c1: "length order = card (set order)"
    using d by (simp add: distinct_card)
  have c2: "card (set order) \<le> card ?N"
    using sub fin by (rule card_mono [rotated])
  have c3: "card ?N \<le> length ts"
    using card_length [of "map tool_id ts"] by simp
  have le: "length order \<le> length ts"
    using c1 c2 c3 by simp
  have iff: "length order = length ts \<longleftrightarrow> distinct (map tool_id ts) \<and> acyclic (set ?E)"
  proof
    assume eq: "length order = length ts"
    with c1 c2 c3 have cN: "card ?N = length ts" and cO: "card (set order) = card ?N"
      by simp_all
    from cN have "card (set (map tool_id ts)) = length (map tool_id ts)" by simp
    then have dist: "distinct (map tool_id ts)" by (rule card_distinct)
    from card_subset_eq [OF fin sub cO] have all: "set order = ?N" .
    have "set ?E \<subseteq> measure (index_of order)"
    proof
      fix e assume e: "e \<in> set ?E"
      with EN all have "snd e \<in> set order" by auto
      with topo e have "index_of order (fst e) < index_of order (snd e)" by blast
      then show "e \<in> measure (index_of order)"
        by (cases e) simp
    qed
    then have "acyclic (set ?E)"
      by (rule acyclic_subset [OF wf_acyclic [OF wf_measure]])
    with dist show "distinct (map tool_id ts) \<and> acyclic (set ?E)" by blast
  next
    assume a: "distinct (map tool_id ts) \<and> acyclic (set ?E)"
    from unscheduled_cycle [OF fin EN sub zero] a have all: "set order = ?N" by blast
    from a have "card ?N = length ts"
      using distinct_card [of "map tool_id ts"] by simp
    with c1 all show "length order = length ts" by simp
  qed
  from o le iff d sub preds cyc show ?thesis by blast
qed

theorem execution_order_length_witness:
  "get_execution_order (tools (parsed chain_bytes)) (connections (parsed chain_bytes))
     = Inr [''1'', ''2'', ''3'']
   \<and> length (tools (parsed chain_bytes)) = 3
   \<and> distinct (map tool_id (tools (parsed chain_bytes)))
   \<and> acyclic (set (induced_edges (tools (parsed chain_bytes)) (connections (parsed chain_bytes))))
   \<and> get_execution_order (tools (parsed cycle_bytes)) (connections (parsed cycle_bytes))
       = Inr [''1'']
   \<and> map tool_id (tools (parsed cycle_bytes)) = [''1'', ''2'', ''3'']
   \<and> \<not> acyclic (set (induced_edges (tools (parsed cycle_bytes)) (connections (parsed cycle_bytes))))"
proof -
  have len: "length (tools (parsed chain_bytes)) = 3"
    using arg_cong [OF parsed_chain_tools, of length] by simp
  from execution_order_length [of "tools (parsed chain_bytes)" "connections (parsed chain_bytes)"]
  have chain: "distinct (map tool_id (tools (parsed chain_bytes)))
     \<and> acyclic (set (induced_edges (tools (parsed chain_bytes)) (connections (parsed chain_bytes))))"
    unfolding chain_order len by simp
  have co: "get_execution_order (tools (parsed cycle_bytes)) (connections (parsed cycle_bytes))
              = Inr [''1'']"
    unfolding parsed_def by code_simp
  have ids: "map tool_id (tools (parsed cycle_bytes)) = [''1'', ''2'', ''3'']"
    unfolding parsed_def by code_simp
  have clen: "length (tools (parsed cycle_bytes)) = 3"
    using arg_cong [OF ids, of length] by simp
  from execution_order_length [of "tools (parsed cycle_bytes)" "connections (parsed cycle_bytes)"]
  have "\<not> acyclic (set (induced_edges (tools (parsed cycle_bytes))
                          (connections (parsed cycle_bytes))))"
    unfolding co clen ids by simp
  with chain chain_order len co ids show ?thesis by blast
qed

theorem execution_order_length_counterexample:
  "get_execution_order (tools (parsed duplicate_bytes)) (connections (parsed duplicate_bytes))
     = Inr [''1'']
   \<and> length (tools (parsed duplicate_bytes)) = 2
   \<and> acyclic (set (induced_edges (tools (parsed duplicate_bytes))
                     (connections (parsed duplicate_bytes))))"
proof -
  have "get_execution_order (tools (parsed duplicate_bytes)) (connections (parsed duplicate_bytes))
          = Inr [''1'']"
    unfolding parsed_def by code_simp
  moreover have "length (tools (parsed duplicate_bytes)) = 2"
    unfolding parsed_def by code_simp
  moreover have "induced_edges (tools (parsed duplicate_bytes))
                   (connections (parsed duplicate_bytes)) = []"
    unfolding parsed_def by code_simp
  ultimately show ?thesis by (simp add: acyclic_def)
qed

text \<open>
  Claim C4. A configuration with the key \<open>File\<close> is classified \<open>output_data\<close> when it
  has the key \<open>FileName_Out\<close> or a key whose lower-cased text contains \<open>output\<close>, and
  \<open>input_data\<close> otherwise, whatever the plugin and the macro are.
\<close>

theorem file_reference_classification:
  assumes "''File'' \<in> fst ` set config"
  shows "identify_tool_type plugin macro config =
           (if ''FileName_Out'' \<in> fst ` set config
               \<or> (\<exists>k \<in> fst ` set config. sublist ''output'' (py_lower k))
            then ''output_data'' else ''input_data'')"
  using assms
  by (simp add: identify_tool_type_def has_key_iff py_in_sublist list_ex_iff)

theorem file_reference_classification_witness:
  "''File'' \<in> fst ` set [(''File'', CStr ''a.csv''), (''Mode'', CNone)]
   \<and> identify_tool_type ''AlteryxBasePluginsEngine.dll'' []
         [(''File'', CStr ''a.csv''), (''Mode'', CNone)] = ''input_data''
   \<and> ''File'' \<in> fst ` set [(''File'', CStr ''b.csv''), (''OutputMode'', CNone)]
   \<and> identify_tool_type [] [] [(''File'', CStr ''b.csv''), (''OutputMode'', CNone)]
       = ''output_data''"
proof -
  have a: "''File'' \<in> fst ` set [(''File'', CStr ''a.csv''), (''Mode'', CNone)]"
    and b: "''File'' \<in> fst ` set [(''File'', CStr ''b.csv''), (''OutputMode'', CNone)]"
    by simp_all
  have na: "\<not> (''FileName_Out'' \<in> fst ` set [(''File'', CStr ''a.csv''), (''Mode'', CNone)]
               \<or> (\<exists>k \<in> fst ` set [(''File'', CStr ''a.csv''), (''Mode'', CNone)].
                     sublist ''output'' (py_lower k)))"
    by code_simp
  have ob: "''FileName_Out'' \<in> fst ` set [(''File'', CStr ''b.csv''), (''OutputMode'', CNone)]
               \<or> (\<exists>k \<in> fst ` set [(''File'', CStr ''b.csv''), (''OutputMode'', CNone)].
                     sublist ''output'' (py_lower k))"
    by code_simp
  from file_reference_classification [OF a, of "''AlteryxBasePluginsEngine.dll''" "[]"] na
  have 1: "identify_tool_type ''AlteryxBasePluginsEngine.dll'' []
             [(''File'', CStr ''a.csv''), (''Mode'', CNone)] = ''input_data''"
    by (simp only: if_False)
  from file_reference_classification [OF b, of "[]" "[]"] ob
  have 2: "identify_tool_type [] [] [(''File'', CStr ''b.csv''), (''OutputMode'', CNone)]
             = ''output_data''"
    by (simp only: if_True)
  from a b 1 2 show ?thesis by blast
qed

text \<open>
  Claim C5. Without the key \<open>File\<close> and with a plugin of the engine family, the
  classifier returns the tag of the first marker of the specification's order that
  occurs in the lower-cased serialized configuration; when none occurs, the macro rule
  and then \<open>unknown\<close> apply.
\<close>

theorem engine_marker_precedence:
  assumes "''File'' \<notin> fst ` set config"
    and "sublist ''AlteryxBasePluginsEngine'' plugin"
  shows "identify_tool_type plugin macro config =
           (case List.find (\<lambda>m. sublist (fst m) (py_lower (py_str (CDict config))))
                   spec_marker_order of
              Some m \<Rightarrow> snd m
            | None \<Rightarrow> if macro \<noteq> [] then ''macro:'' @ macro else ''unknown'')"
  using assms
  by (simp add: identify_tool_type_def has_key_iff py_in_sublist spec_marker_order_def Let_def)

theorem engine_marker_precedence_witness:
  "''File'' \<notin> fst ` set [(''Expression'', CStr ''Join and Filter'')]
   \<and> sublist ''AlteryxBasePluginsEngine'' ''AlteryxBasePluginsEngine.dll''
   \<and> identify_tool_type ''AlteryxBasePluginsEngine.dll'' []
         [(''Expression'', CStr ''Join and Filter'')] = ''filter''"
proof -
  have a: "''File'' \<notin> fst ` set [(''Expression'', CStr ''Join and Filter'')]"
    by simp
  have b: "sublist ''AlteryxBasePluginsEngine'' ''AlteryxBasePluginsEngine.dll''"
    by code_simp
  have c: "List.find (\<lambda>m. sublist (fst m)
                (py_lower (py_str (CDict [(''Expression'', CStr ''Join and Filter'')]))))
             spec_marker_order = Some (''filter'', ''filter'')"
    by code_simp
  from engine_marker_precedence [OF a b, of "[]"]
  have "identify_tool_type ''AlteryxBasePluginsEngine.dll'' []
          [(''Expression'', CStr ''Join and Filter'')] = ''filter''"
    unfolding c by simp
  with a b show ?thesis by blast
qed

text \<open>
  Claim C6, at the input that shows the defect. For a workflow with one input node
  that reads \<open>data.xlsx\<close>, a fresh generator returns a script whose fragment calls
  \<open>pd.read_excel\<close> and leaves \<open>openpyxl\<close> in the generator's import set, while the
  header of that script, built before the fragment, imports only numpy and pandas.
\<close>

theorem header_misses_fragment_import:
  "case generate (example_gen_env ''2024-01-01 00:00:00'') (parsed xlsx_bytes) init_generator of
     Inl e \<Rightarrow> False
   | Inr (script, gen') \<Rightarrow>
       py_in (''df_1 = pd.read_excel('' @ sq @ ''data.xlsx'' @ sq @ '')'') script
       \<and> ''openpyxl'' \<in> imports_set gen'
       \<and> \<not> py_in ''openpyxl'' script
       \<and> py_in (''import numpy as np'' @ newline @ ''import pandas as pd'' @ newline @ newline
                 @ ''def main():'') script"
  unfolding parsed_def by code_simp

text \<open>
  Claim C7, amended. When \<open>parse\<close> returns false, whatever made it fail (bytes that
  are no document, a position that is no number, a configuration nested deeper than the
  call stack has room for), the connections are unchanged and the tools held before are
  a prefix of the tools held after. If the bytes did not parse into a tree, the whole
  parser is unchanged; otherwise the metadata is that of the new document.
\<close>

theorem failed_parse_state:
  fixes st :: "'f parser"
  assumes "parse env st xml = (st', False)"
  shows "connections st' = connections st
         \<and> prefix (tools st) (tools st')
         \<and> (case fromstring env xml of
               Inl e \<Rightarrow> st' = st
             | Inr root \<Rightarrow> metadata st' = metadata (extract_metadata root st))"
proof (cases "fromstring env xml")
  case (Inl e)
  with assms show ?thesis by (simp add: parse_def)
next
  case (Inr root)
  let ?nodes = "findall root ''Node''"
  from assms Inr have "st' = fst (extract_tools_loop env ?nodes (extract_metadata root st))"
    by (auto simp: parse_def extract_tools_def split: prod.splits option.splits)
  with tools_loop_fields [of env ?nodes "extract_metadata root st"] Inr
  show ?thesis
    by (simp add: extract_metadata_def Let_def)
qed

theorem failed_parse_state_witness:
  "parse example_env (parsed chain_bytes) bad_position_bytes
     = (fst (parse example_env (parsed chain_bytes) bad_position_bytes), False)
   \<and> connections (fst (parse example_env (parsed chain_bytes) bad_position_bytes))
       = connections (parsed chain_bytes)
   \<and> prefix (tools (parsed chain_bytes))
        (tools (fst (parse example_env (parsed chain_bytes) bad_position_bytes)))
   \<and> snd (extract_tools shallow_env nested_doc init_parser) = Some RecursionError
   \<and> parse shallow_env (parsed chain_bytes) nested_bytes
       = (fst (parse shallow_env (parsed chain_bytes) nested_bytes), False)
   \<and> map tool_id (tools (fst (parse shallow_env (parsed chain_bytes) nested_bytes)))
       = [''1'', ''2'', ''3'', ''1'']
   \<and> connections (fst (parse shallow_env (parsed chain_bytes) nested_bytes))
       = connections (parsed chain_bytes)
   \<and> prefix (tools (parsed chain_bytes))
        (tools (fst (parse shallow_env (parsed chain_bytes) nested_bytes)))"
proof -
  have "snd (parse example_env (parsed chain_bytes) bad_position_bytes) = False"
    unfolding parsed_def by code_simp
  then have f: "parse example_env (parsed chain_bytes) bad_position_bytes
     = (fst (parse example_env (parsed chain_bytes) bad_position_bytes), False)"
    by (metis prod.collapse)
  have r: "snd (extract_tools shallow_env nested_doc init_parser) = Some RecursionError"
    by code_simp
  have "snd (parse shallow_env (parsed chain_bytes) nested_bytes) = False"
    unfolding parsed_def by code_simp
  then have g: "parse shallow_env (parsed chain_bytes) nested_bytes
     = (fst (parse shallow_env (parsed chain_bytes) nested_bytes), False)"
    by (metis prod.collapse)
  have t: "map tool_id (tools (fst (parse shallow_env (parsed chain_bytes) nested_bytes)))
             = [''1'', ''2'', ''3'', ''1'']"
    unfolding parsed_def by code_simp
  from failed_parse_state [OF f] failed_parse_state [OF g] f g r t show ?thesis by blast
qed

theorem failed_parse_counterexample:
  "snd (parse example_env init_parser bad_position_bytes) = False
   \<and> map tool_id (tools (fst (parse example_env init_parser bad_position_bytes))) = [''1'']
   \<and> tools (init_parser :: int parser) = []
   \<and> metadata (fst (parse example_env init_parser bad_position_bytes))
       = [(''version'', Some ''Unknown''), (''creation_date'', None),
          (''author'', Some ''Ann''), (''description'', None)]
   \<and> metadata (init_parser :: int parser) = []"
  by code_simp

text \<open>
  Claim C8. The extraction of a configuration element raises \<open>RecursionError\<close> when
  the element nests deeper than the call stack has room for, and otherwise returns a
  mapping in which a key is present exactly when some child has that tag, with the value
  of the last such child: the mapping extracted from the child when it has children,
  else its stripped text when the text holds a character that is not white space, else
  its attribute mapping when it has attributes, else \<open>None\<close>.
\<close>

theorem config_extraction_cases:
  "if room < extract_depth e
   then recursive_config_extract room e [] [] = Inl RecursionError
   else \<exists>r. recursive_config_extract room e [] [] = Inr r
          \<and> (\<forall>k. case List.find (\<lambda>c. tag c = k) (rev (children e)) of
                    None \<Rightarrow> map_of r k = None
                  | Some c \<Rightarrow>
                      if children c \<noteq> []
                      then \<exists>sub. recursive_config_extract (room - 1) c [] [] = Inr sub
                                 \<and> map_of r k = Some (CDict sub)
                      else map_of r k =
                             Some (if (\<exists>s. text_of c = Some s \<and> (\<exists>ch\<in>set s. \<not> py_isspace ch))
                                   then CStr (py_strip (the (text_of c)))
                                   else if attrib c \<noteq> []
                                   then CDict (map (\<lambda>(a, v). (a, CStr v)) (attrib c))
                                   else CNone))"
proof (cases "room < extract_depth e")
  case True
  with extract_returns [of room e] show ?thesis by simp
next
  case False
  with extract_depth_pos [of e] obtain room' where room: "room = Suc room'"
    by (cases room) auto
  from False room have "\<forall>c\<in>set (children e). children c \<noteq> [] \<longrightarrow> extract_depth c \<le> room'"
    using extract_depth_le [of e room'] by simp
  with extract_returns have ret: "\<forall>c\<in>set (children e). \<exists>v. config_entry room' c = Inr v"
    by (auto simp: config_entry_def split: sum.splits) (metis sum.distinct(1) sum.inject(1))+
  define r where "r = fold (\<lambda>c acc. AList.update (tag c) (projr (config_entry room' c)) acc)
                        (children e) []"
  have rr: "recursive_config_extract room e [] [] = Inr r"
    unfolding room extract_fold_err r_def by (rule fold_err_all_return [OF ret])
  have look: "map_of r k = (case List.find (\<lambda>c. tag c = k) (rev (children e)) of
                              None \<Rightarrow> None
                            | Some c \<Rightarrow> Some (projr (config_entry room' c)))" for k
    unfolding r_def by (simp add: map_of_fold_update split: option.split)
  have "case List.find (\<lambda>c. tag c = k) (rev (children e)) of
          None \<Rightarrow> map_of r k = None
        | Some c \<Rightarrow>
            if children c \<noteq> []
            then \<exists>sub. recursive_config_extract (room - 1) c [] [] = Inr sub
                       \<and> map_of r k = Some (CDict sub)
            else map_of r k =
                   Some (if (\<exists>s. text_of c = Some s \<and> (\<exists>ch\<in>set s. \<not> py_isspace ch))
                         then CStr (py_strip (the (text_of c)))
                         else if attrib c \<noteq> []
                         then CDict (map (\<lambda>(a, v). (a, CStr v)) (attrib c))
                         else CNone)" for k
  proof (cases "List.find (\<lambda>c. tag c = k) (rev (children e))")
    case None
    with look [of k] show ?thesis by simp
  next
    case (Some c)
    then have "c \<in> set (rev (children e))"
      by (metis find_Some_iff nth_mem)
    then have "c \<in> set (children e)"
      by simp
    with ret obtain v where v: "config_entry room' c = Inr v" by blast
    from look [of k] Some v have m: "map_of r k = Some v" by simp
    show ?thesis
    proof (cases "children c \<noteq> []")
      case True
      with v obtain sub where "recursive_config_extract room' c [] [] = Inr sub" "v = CDict sub"
        by (auto simp: config_entry_def split: sum.splits)
      with Some True m room show ?thesis by simp
    next
      case False
      with v have "v = leaf_value c"
        by (simp add: config_entry_def)
      with Some False m show ?thesis by (simp add: leaf_value_def)
    qed
  qed
  with rr False show ?thesis by auto
qed

theorem config_extraction_cases_witness:
  "(\<exists>r. recursive_config_extract 2 sibling_config [] [] = Inr r
        \<and> map_of r ''Field'' = Some (CStr ''b'')
        \<and> map_of r ''Opts'' = Some (CDict [(''mode'', CStr ''x'')])
        \<and> map_of r ''Empty'' = Some CNone
        \<and> map_of r ''Nested'' = Some (CDict [(''K'', CStr ''v'')])
        \<and> map_of r ''Other'' = None)
   \<and> recursive_config_extract 1 sibling_config [] [] = Inl RecursionError
   \<and> extract_depth sibling_config = 2"
proof -
  have d: "extract_depth sibling_config = 2"
    by code_simp
  have n: "recursive_config_extract 1 (Element ''Nested'' [] None [Element ''K'' [] (Some ''v'') []])
             [] [] = Inr [(''K'', CStr ''v'')]"
    by code_simp
  from config_extraction_cases [of 2 sibling_config] d obtain r where
    r: "recursive_config_extract 2 sibling_config [] [] = Inr r"
    and c: "\<And>k. case List.find (\<lambda>c. tag c = k) (rev (children sibling_config)) of
                    None \<Rightarrow> map_of r k = None
                  | Some c \<Rightarrow>
                      if children c \<noteq> []
                      then \<exists>sub. recursive_config_extract (2 - 1) c [] [] = Inr sub
                                 \<and> map_of r k = Some (CDict sub)
                      else map_of r k =
                             Some (if (\<exists>s. text_of c = Some s \<and> (\<exists>ch\<in>set s. \<not> py_isspace ch))
                                   then CStr (py_strip (the (text_of c)))
                                   else if attrib c \<noteq> []
                                   then CDict (map (\<lambda>(a, v). (a, CStr v)) (attrib c))
                                   else CNone)"
    by auto
  from c [of "''Field''"] have 1: "map_of r ''Field'' = Some (CStr ''b'')"
    by (simp add: sibling_config_def py_strip_def py_isspace_def)
  from c [of "''Opts''"] have 2: "map_of r ''Opts'' = Some (CDict [(''mode'', CStr ''x'')])"
    by (simp add: sibling_config_def)
  from c [of "''Empty''"] have 3: "map_of r ''Empty'' = Some CNone"
    by (simp add: sibling_config_def)
  from c [of "''Nested''"] n have 4: "map_of r ''Nested'' = Some (CDict [(''K'', CStr ''v'')])"
    by (simp add: sibling_config_def)
  from c [of "''Other''"] have 5: "map_of r ''Other'' = None"
    by (simp add: sibling_config_def)
  from config_extraction_cases [of 1 sibling_config] d
  have "recursive_config_extract 1 sibling_config [] [] = Inl RecursionError"
    by simp
  with d r 1 2 3 4 5 show ?thesis by blast
qed

text \<open>
  Claim C9. For every id, \<open>get_tool_by_id\<close> returns the first tool with that id, and
  \<open>None\<close> exactly when no tool has it; \<open>get_source_tools\<close> and
  \<open>get_destination_tools\<close> return the other ends of the matching connections in
  connection-list order. The three functions are total: no id makes them raise.
\<close>

theorem accessors_total:
  "get_tool_by_id ts i = List.find (\<lambda>t. tool_id t = i) ts
   \<and> (get_tool_by_id ts i = None) = (i \<notin> tool_id ` set ts)
   \<and> get_source_tools cs i = map conn_source (filter (\<lambda>c. conn_destination c = i) cs)
   \<and> get_destination_tools cs i = map conn_destination (filter (\<lambda>c. conn_source c = i) cs)"
proof -
  have a: "get_tool_by_id ts i = List.find (\<lambda>t. tool_id t = i) ts"
    by (induction ts) auto
  have b: "(get_tool_by_id ts i = None) = (i \<notin> tool_id ` set ts)"
    by (induction ts) auto
  have c: "get_source_tools cs i = map conn_source (filter (\<lambda>c. conn_destination c = i) cs)"
    by (induction cs) auto
  have d: "get_destination_tools cs i = map conn_destination (filter (\<lambda>c. conn_source c = i) cs)"
    by (induction cs) auto
  from a b c d show ?thesis by blast
qed

theorem accessors_total_witness:
  "get_tool_by_id (tools (parsed chain_bytes)) ''9'' = None
   \<and> map_option tool_type (get_tool_by_id (tools (parsed chain_bytes)) ''2'') = Some ''filter''
   \<and> get_source_tools (connections (parsed chain_bytes)) ''2'' = [''1'']
   \<and> get_destination_tools (connections (parsed chain_bytes)) ''2'' = [''3'']
   \<and> get_source_tools (connections (parsed chain_bytes)) ''9'' = []
   \<and> get_destination_tools (connections (parsed chain_bytes)) ''9'' = []"
proof -
  have a: "map_option tool_type (List.find (\<lambda>t. tool_id t = ''2'') (tools (parsed chain_bytes)))
             = Some ''filter''"
    and b: "''9'' \<notin> tool_id ` set (tools (parsed chain_bytes))"
    and c: "map conn_source (filter (\<lambda>c. conn_destination c = ''2'') (connections (parsed chain_bytes)))
             = [''1'']"
    and d: "map conn_destination (filter (\<lambda>c. conn_source c = ''2'') (connections (parsed chain_bytes)))
             = [''3'']"
    and e: "map conn_source (filter (\<lambda>c. conn_destination c = ''9'') (connections (parsed chain_bytes)))
             = []"
    and f: "map conn_destination (filter (\<lambda>c. conn_source c = ''9'') (connections (parsed chain_bytes)))
             = []"
    unfolding parsed_def by code_simp+
  note at9 = accessors_total [of "tools (parsed chain_bytes)" "''9''" "connections (parsed chain_bytes)"]
  note at2 = accessors_total [of "tools (parsed chain_bytes)" "''2''" "connections (parsed chain_bytes)"]
  from at9 b have 1: "get_tool_by_id (tools (parsed chain_bytes)) ''9'' = None"
    by blast
  from at2 a have 2: "map_option tool_type (get_tool_by_id (tools (parsed chain_bytes)) ''2'')
                        = Some ''filter''"
    by (simp only:)
  from at2 c d have 3: "get_source_tools (connections (parsed chain_bytes)) ''2'' = [''1'']"
    and 4: "get_destination_tools (connections (parsed chain_bytes)) ''2'' = [''3'']"
    by (simp_all only:)
  from at9 e f have 5: "get_source_tools (connections (parsed chain_bytes)) ''9'' = []"
    and 6: "get_destination_tools (connections (parsed chain_bytes)) ''9'' = []"
    by (simp_all only:)
  from 1 2 3 4 5 6 show ?thesis by blast
qed

text \<open>
  Claim C10. A successful \<open>parse\<close> appends to the tools and connections that the parser
  already holds exactly what the same call yields on a fresh parser, and replaces the
  metadata; parsing the same document once more succeeds again and appends the same
  number of tools and connections a second time.
\<close>

theorem parse_accumulates:
  fixes st :: "'f parser"
  assumes "parse env st xml = (st', True)"
  shows "\<exists>fresh. parse env init_parser xml = (fresh, True)
           \<and> tools st' = tools st @ tools fresh
           \<and> connections st' = connections st @ connections fresh
           \<and> metadata st' = metadata fresh
           \<and> (\<exists>st''. parse env st' xml = (st'', True)
                 \<and> length (tools st'') = length (tools st) + 2 * length (tools fresh)
                 \<and> length (connections st'')
                     = length (connections st) + 2 * length (connections fresh))"
proof -
  from assms obtain root where root: "fromstring env xml = Inr root"
    by (auto simp: parse_def split: sum.splits)
  let ?nodes = "findall root ''Node''" and ?cs = "findall root ''Connection''"
  have ok: "snd (extract_tools_loop env ?nodes (extract_metadata root st)) = None"
    using assms root
    by (auto simp: parse_def extract_tools_def split: prod.splits option.splits)
  have run: "parse env s xml =
      (extract_connections_loop ?cs (fst (extract_tools_loop env ?nodes (extract_metadata root s))),
       True)" for s :: "'f parser"
  proof -
    from tools_loop_fields [of env ?nodes "extract_metadata root s"]
      tools_loop_fields [of env ?nodes "extract_metadata root st"] ok
    have "snd (extract_tools_loop env ?nodes (extract_metadata root s)) = None" by simp
    then show ?thesis
      using root
      by (auto simp: parse_def extract_tools_def extract_connections_def split: prod.splits)
  qed
  have flds: "tools (fst (parse env s xml))
                = tools s @ tools (fst (extract_tools_loop env ?nodes init_parser))
      \<and> connections (fst (parse env s xml))
                = connections s @ connections (extract_connections_loop ?cs (init_parser :: 'f parser))
      \<and> metadata (fst (parse env s xml)) = metadata (extract_metadata root s)"
    for s :: "'f parser"
    unfolding run [of s]
    using conns_loop_fields [of ?cs "fst (extract_tools_loop env ?nodes (extract_metadata root s))"]
      tools_loop_fields [of env ?nodes "extract_metadata root s"]
    by (simp add: extract_metadata_def Let_def)
  have md: "metadata (extract_metadata root s) = metadata (extract_metadata root init_parser)"
    for s :: "'f parser"
    by (simp add: extract_metadata_def Let_def)
  define fresh where "fresh = fst (parse env (init_parser :: 'f parser) xml)"
  have f: "parse env init_parser xml = (fresh, True)"
    using run [of init_parser] by (simp add: fresh_def)
  have ft: "tools fresh = tools (fst (extract_tools_loop env ?nodes init_parser))"
    and fc: "connections fresh = connections (extract_connections_loop ?cs (init_parser :: 'f parser))"
    and fm: "metadata fresh = metadata (extract_metadata root (init_parser :: 'f parser))"
    using flds [of init_parser] by (simp_all add: fresh_def init_parser_def)
  from assms have st': "st' = fst (parse env st xml)" by simp
  have a: "tools st' = tools st @ tools fresh"
    and b: "connections st' = connections st @ connections fresh"
    and c: "metadata st' = metadata fresh"
    using flds [of st] md [of st] by (simp_all add: st' ft fc fm)
  define st'' where "st'' = fst (parse env st' xml)"
  have g: "parse env st' xml = (st'', True)"
    using run [of st'] by (simp add: st''_def)
  have "tools st'' = tools st' @ tools fresh" and "connections st'' = connections st' @ connections fresh"
    using flds [of st'] by (simp_all add: st''_def ft fc)
  with a b have "length (tools st'') = length (tools st) + 2 * length (tools fresh)"
    and "length (connections st'') = length (connections st) + 2 * length (connections fresh)"
    by simp_all
  with f a b c g show ?thesis by blast
qed

theorem parse_accumulates_witness:
  "parse example_env init_parser chain_bytes = (parsed chain_bytes, True)
   \<and> (\<exists>st''. parse example_env (parsed chain_bytes) chain_bytes = (st'', True)
          \<and> length (tools st'') = 6 \<and> length (connections st'') = 4)"
proof -
  have t: "length (tools (parsed chain_bytes)) = 3"
    using arg_cong [OF parsed_chain_tools, of length] by simp
  have c: "length (connections (parsed chain_bytes)) = 2"
    using arg_cong [OF parsed_chain_conns, of length] by simp
  from parse_accumulates [OF parsed_chain] obtain fresh st'' where
    "parse example_env init_parser chain_bytes = (fresh, True)"
    and "parse example_env (parsed chain_bytes) chain_bytes = (st'', True)"
    and "length (tools st'') = length (tools (init_parser :: int parser)) + 2 * length (tools fresh)"
    and "length (connections st'')
           = length (connections (init_parser :: int parser)) + 2 * length (connections fresh)"
    by blast
  with parsed_chain t c show ?thesis
    by (auto simp: init_parser_def)
qed

end
